theory Spec2Isabelle
  imports Complex_Main
begin

section \<open>The sport mode demonstration script\<close>

text \<open>
  The script \<^verbatim>\<open>examples/data_channel/sportmode/sportmode_debug.py\<close> drives a robot over a
  connection object of an external driver. The driver, the operating system's signals and
  the robot are the script's environment: a \<open>world\<close> fixes what each call into the driver
  does and when a termination signal is delivered. The script itself is embedded as
  functions that pass a \<open>state\<close> along: the shutdown flag, the local variables of
  \<open>main\<close> that the control flow depends on, and the trace of what the script has done.
\<close>

subsection \<open>Exceptions\<close>

text \<open>
  The exception classes that matter to the script's \<^verbatim>\<open>except\<close> clauses.
  \<open>CancelledError\<close>, \<open>KeyboardInterrupt\<close> and \<open>SystemExit\<close> derive from
  \<^verbatim>\<open>BaseException\<close> only; all others derive from \<^verbatim>\<open>Exception\<close>.
\<close>

datatype exn =
    TimeoutError
  | ConnectionError
  | UnboundLocalError
  | KeyError
  | TypeError
  | ValueError
  | RuntimeError
  | CancelledError
  | KeyboardInterrupt
  | SystemExit int

fun is_Exception :: "exn \<Rightarrow> bool" where
  "is_Exception CancelledError = False"
| "is_Exception KeyboardInterrupt = False"
| "is_Exception (SystemExit c) = False"
| "is_Exception e = True"

subsection \<open>Requests, responses and events\<close>

datatype api = Api int | SPORT_CMD string

datatype parameter = Name string | XYZ rat rat rat | Data bool

datatype payload = Payload (api_id: api) (parameter: "parameter option")

text \<open>
  Of a response the script reads \<^verbatim>\<open>response['data']['header']['status']['code']\<close> and
  \<^verbatim>\<open>json.loads(response['data']['data'])['name']\<close>. Either expression yields a value
  or raises (a missing key, a payload that is not JSON).
\<close>

datatype response = Response (status_code: "exn + int") (data_name: "exn + string")

datatype event =
    Signal
  | Connect
  | WaitOpen int
  | Request string payload
  | Sleep int
  | Check bool
  | Logged string exn
  | Cleanup
  | Terminated

subsection \<open>The environment\<close>

record world =
  ctor_outcome :: "exn option"
  connect_outcome :: "nat \<Rightarrow> exn option"
  wait_outcome :: "exn option"
  publish_outcome :: "nat \<Rightarrow> exn + response"
  signal_during :: "nat \<Rightarrow> bool"

text \<open>
  \<open>connect_outcome w k\<close> is what the \<open>k\<close>-th call of \<^verbatim>\<open>conn.connect()\<close> does (\<open>None\<close>:
  it returns), \<open>publish_outcome w k\<close> what the \<open>k\<close>-th call of
  \<^verbatim>\<open>publish_request_new\<close> does, and \<open>signal_during w k\<close> tells whether SIGINT or SIGTERM
  is delivered while the script is suspended in its \<open>k\<close>-th \<^verbatim>\<open>await\<close>.
  \<^verbatim>\<open>asyncio.sleep\<close> and \<^verbatim>\<open>print\<close> return normally.
\<close>

record state =
  kill_now :: bool
  conn :: bool
  current_motion_switcher_mode :: "string option"
  trace :: "event list"
  connects :: nat
  publishes :: nat
  awaits :: nat

definition start :: state where
  "start = \<lparr>kill_now = False, conn = False, current_motion_switcher_mode = None,
            trace = [], connects = 0, publishes = 0, awaits = 0\<rparr>"

definition log :: "event \<Rightarrow> state \<Rightarrow> state" where
  "log e s = s\<lparr>trace := trace s @ [e]\<rparr>"

subsection \<open>GracefulKiller\<close>

definition GracefulKiller :: "state \<Rightarrow> state" where
  "GracefulKiller s = s\<lparr>kill_now := False\<rparr>"

definition handle_signal :: "state \<Rightarrow> state" where
  "handle_signal s = (log Signal s)\<lparr>kill_now := True\<rparr>"

text \<open>An \<^verbatim>\<open>await\<close>: the operation is started, and a signal may be handled before it ends.\<close>

definition await :: "world \<Rightarrow> event \<Rightarrow> state \<Rightarrow> state" where
  "await w e s =
     (let s1 = (log e s)\<lparr>awaits := Suc (awaits s)\<rparr>
      in if signal_during w (awaits s) then handle_signal s1 else s1)"

definition sleep :: "world \<Rightarrow> int \<Rightarrow> state \<Rightarrow> state" where
  "sleep w d s = await w (Sleep d) s"

definition connect :: "world \<Rightarrow> state \<Rightarrow> exn option \<times> state" where
  "connect w s = (connect_outcome w (connects s), await w Connect (s\<lparr>connects := Suc (connects s)\<rparr>))"

subsection \<open>connect_with_retry\<close>

text \<open>
  The loop \<^verbatim>\<open>for attempt in range(max_retries)\<close>, with the loop variable as argument.
  The result is \<open>Inr b\<close> when the function returns \<open>b\<close> and \<open>Inl e\<close> when \<open>e\<close> leaves it.
\<close>

function retry_loop :: "world \<Rightarrow> int \<Rightarrow> int \<Rightarrow> int \<Rightarrow> state \<Rightarrow> (exn + bool) \<times> state" where
  "retry_loop w max_retries delay attempt s =
     (if attempt < max_retries then
        (case connect w s of
           (None, s1) \<Rightarrow> (Inr True, s1)
         | (Some e, s1) \<Rightarrow>
             if is_Exception e then
               (if attempt < max_retries - 1
                then retry_loop w max_retries delay (attempt + 1) (sleep w delay s1)
                else (Inr False, s1))
             else (Inl e, s1))
      else (Inr False, s))"
  by pat_completeness auto
termination
  by (relation "measure (\<lambda>(w, m, d, a, s). nat (m - a))") auto

declare retry_loop.simps [simp del]

definition connect_with_retry :: "world \<Rightarrow> int \<Rightarrow> int \<Rightarrow> state \<Rightarrow> (exn + bool) \<times> state" where
  "connect_with_retry w max_retries delay s = retry_loop w max_retries delay 0 s"

subsection \<open>Control flow inside a function body\<close>

text \<open>
  A statement either falls through to the next one (with a value), executes
  \<^verbatim>\<open>return\<close>, or raises.
\<close>

datatype 'a ctl = Next 'a | Return | Raise exn

type_synonym 'a prog = "state \<Rightarrow> 'a ctl \<times> state"

definition and_then :: "'a prog \<Rightarrow> ('a \<Rightarrow> 'b prog) \<Rightarrow> 'b prog" where
  "and_then m f s =
     (case m s of
        (Next x, s1) \<Rightarrow> f x s1
      | (Return, s1) \<Rightarrow> (Return, s1)
      | (Raise e, s1) \<Rightarrow> (Raise e, s1))"

definition skip :: "unit prog" where
  "skip s = (Next (), s)"

definition call :: "(state \<Rightarrow> (exn + 'a) \<times> state) \<Rightarrow> 'a prog" where
  "call f s = (case f s of (Inl e, s1) \<Rightarrow> (Raise e, s1) | (Inr x, s1) \<Rightarrow> (Next x, s1))"

definition try_except :: "'a prog \<Rightarrow> (exn \<Rightarrow> 'a prog) \<Rightarrow> 'a prog" where
  "try_except body handler s =
     (case body s of (Raise e, s1) \<Rightarrow> handler e s1 | (r, s1) \<Rightarrow> (r, s1))"

text \<open>
  \<^verbatim>\<open>finally\<close>: the block runs whatever the body did; when it falls through, the body's
  outcome stands, and when it returns or raises itself, that replaces the body's outcome.
\<close>

definition try_finally :: "'a prog \<Rightarrow> unit prog \<Rightarrow> 'a prog" where
  "try_finally body fin s =
     (case body s of
        (r, s1) \<Rightarrow>
          (case fin s1 of
             (Next u, s2) \<Rightarrow> (r, s2)
           | (Return, s2) \<Rightarrow> (Return, s2)
           | (Raise e, s2) \<Rightarrow> (Raise e, s2)))"

subsection \<open>Calls into the driver\<close>

definition construct :: "world \<Rightarrow> unit prog" where
  "construct w s =
     (case ctor_outcome w of
        Some e \<Rightarrow> (Raise e, s)
      | None \<Rightarrow> (Next (), s\<lparr>conn := True\<rparr>))"

definition wait_datachannel_open :: "world \<Rightarrow> int \<Rightarrow> unit prog" where
  "wait_datachannel_open w timeout s =
     (let s1 = await w (WaitOpen timeout) s
      in case wait_outcome w of Some e \<Rightarrow> (Raise e, s1) | None \<Rightarrow> (Next (), s1))"

definition publish_request_new :: "world \<Rightarrow> string \<Rightarrow> payload \<Rightarrow> response prog" where
  "publish_request_new w topic p s =
     (let s1 = await w (Request topic p) (s\<lparr>publishes := Suc (publishes s)\<rparr>)
      in case publish_outcome w (publishes s) of
           Inl e \<Rightarrow> (Raise e, s1)
         | Inr r \<Rightarrow> (Next r, s1))"

definition pause :: "world \<Rightarrow> int \<Rightarrow> unit prog" where
  "pause w d s = (Next (), sleep w d s)"

text \<open>\<^verbatim>\<open>if killer.kill_now: return\<close>\<close>

definition return_if_killed :: "unit prog" where
  "return_if_killed s =
     (if kill_now s then (Return, log (Check True) s) else (Next (), log (Check False) s))"

subsection \<open>main: the command sequence\<close>

text \<open>Lines 70 to 79: the mode query and the assignment of the current mode.\<close>

definition read_mode :: "response \<Rightarrow> unit prog" where
  "read_mode response s =
     (case status_code response of
        Inl e \<Rightarrow> (Raise e, s)
      | Inr code \<Rightarrow>
          if code = 0 then
            (case data_name response of
               Inl e \<Rightarrow> (Raise e, s)
             | Inr name \<Rightarrow> (Next (), s\<lparr>current_motion_switcher_mode := Some name\<rparr>))
          else (Next (), s))"

definition query_mode :: "world \<Rightarrow> unit prog" where
  "query_mode w =
     and_then (publish_request_new w ''MOTION_SWITCHER'' (Payload (Api 1001) None)) read_mode"

text \<open>
  Lines 81 to 91. Reading a local variable that was never assigned raises
  \<^verbatim>\<open>UnboundLocalError\<close>.
\<close>

definition load_mode :: "string prog" where
  "load_mode s =
     (case current_motion_switcher_mode s of
        None \<Rightarrow> (Raise UnboundLocalError, s)
      | Some mode \<Rightarrow> (Next mode, s))"

definition switch_to_normal :: "world \<Rightarrow> unit prog" where
  "switch_to_normal w =
     and_then load_mode (\<lambda>mode.
       if mode \<noteq> ''normal'' then
         and_then
           (publish_request_new w ''MOTION_SWITCHER'' (Payload (Api 1002) (Some (Name ''normal''))))
           (\<lambda>r. pause w 5)
       else skip)"

definition normal_mode :: "world \<Rightarrow> unit prog" where
  "normal_mode w =
     and_then (query_mode w) (\<lambda>u.
     and_then (switch_to_normal w) (\<lambda>u.
     return_if_killed))"

text \<open>Lines 96 to 118.\<close>

definition hello_and_forward :: "world \<Rightarrow> unit prog" where
  "hello_and_forward w =
     and_then (publish_request_new w ''SPORT_MOD'' (Payload (SPORT_CMD ''Hello'') None)) (\<lambda>r.
     and_then (pause w 1) (\<lambda>u.
     and_then (publish_request_new w ''SPORT_MOD''
                 (Payload (SPORT_CMD ''Move'') (Some (XYZ (1 / 2) 0 0)))) (\<lambda>r.
     and_then (pause w 3) (\<lambda>u.
     return_if_killed))))"

text \<open>Lines 120 to 133.\<close>

definition move_backward :: "world \<Rightarrow> unit prog" where
  "move_backward w =
     and_then (publish_request_new w ''SPORT_MOD''
                 (Payload (SPORT_CMD ''Move'') (Some (XYZ (- (1 / 2)) 0 0)))) (\<lambda>r.
     and_then (pause w 3) (\<lambda>u.
     return_if_killed))"

text \<open>Lines 135 to 149.\<close>

definition ai_mode :: "world \<Rightarrow> unit prog" where
  "ai_mode w =
     and_then (publish_request_new w ''MOTION_SWITCHER''
                 (Payload (Api 1002) (Some (Name ''ai'')))) (\<lambda>r.
     and_then (pause w 10) (\<lambda>u.
     return_if_killed))"

text \<open>Lines 151 to 171.\<close>

definition handstand :: "world \<Rightarrow> unit prog" where
  "handstand w =
     and_then (publish_request_new w ''SPORT_MOD''
                 (Payload (SPORT_CMD ''StandOut'') (Some (Data True)))) (\<lambda>r.
     and_then (pause w 5) (\<lambda>u.
     and_then (publish_request_new w ''SPORT_MOD''
                 (Payload (SPORT_CMD ''StandOut'') (Some (Data False)))) (\<lambda>r.
     skip)))"

text \<open>
  Lines 175 to 178: \<^verbatim>\<open>for i in range(600)\<close>, with the number of iterations left as
  argument; \<^verbatim>\<open>break\<close> leaves the loop and falls through to the end of the body.
\<close>

fun idle_loop :: "world \<Rightarrow> nat \<Rightarrow> unit prog" where
  "idle_loop w 0 s = (Next (), s)"
| "idle_loop w (Suc n) s =
     (if kill_now s then (Next (), log (Check True) s)
      else idle_loop w n (sleep w 1 (log (Check False) s)))"

definition command_sequence :: "world \<Rightarrow> unit prog" where
  "command_sequence w =
     and_then (normal_mode w) (\<lambda>u.
     and_then (hello_and_forward w) (\<lambda>u.
     and_then (move_backward w) (\<lambda>u.
     and_then (ai_mode w) (\<lambda>u.
     and_then (handstand w) (\<lambda>u.
     idle_loop w 600)))))"

subsection \<open>main\<close>

text \<open>Lines 56 to 178: what \<open>main\<close> does with the connection object.\<close>

definition session :: "world \<Rightarrow> unit prog" where
  "session w =
     and_then (call (connect_with_retry w 3 5)) (\<lambda>connected.
       if \<not> connected then (\<lambda>s. (Return, s))
       else
         and_then (wait_datachannel_open w 30) (\<lambda>u.
         and_then return_if_killed (\<lambda>u.
         command_sequence w)))"

text \<open>Lines 48 to 178, the body of the \<^verbatim>\<open>try\<close> statement.\<close>

definition main_body :: "world \<Rightarrow> unit prog" where
  "main_body w = and_then (construct w) (\<lambda>u. session w)"

text \<open>Lines 180 to 188.\<close>

definition handlers :: "exn \<Rightarrow> unit prog" where
  "handlers e s =
     (if e = TimeoutError then (Next (), log (Logged ''Timeout error'' e) s)
      else if e = ConnectionError then (Next (), log (Logged ''Connection error'' e) s)
      else if is_Exception e then (Next (), log (Logged ''Unexpected error'' e) s)
      else (Raise e, s))"

text \<open>Lines 189 to 197.\<close>

definition cleanup :: "world \<Rightarrow> unit prog" where
  "cleanup w s =
     (if conn s then
        try_except (\<lambda>s. pause w 1 (log Cleanup s))
          (\<lambda>e s. if is_Exception e then (Next (), s) else (Raise e, s)) s
      else (Next (), s))"

definition main :: "world \<Rightarrow> state \<Rightarrow> (exn + unit) \<times> state" where
  "main w s =
     (case try_finally (try_except (main_body w) handlers) (cleanup w)
             ((GracefulKiller s)\<lparr>conn := False, current_motion_switcher_mode := None\<rparr>) of
        (Raise e, s') \<Rightarrow> (Inl e, s')
      | (r, s') \<Rightarrow> (Inr (), s'))"

subsection \<open>The module level\<close>

text \<open>
  Lines 199 to 209. \<^verbatim>\<open>asyncio.run(main())\<close> returns what \<open>main\<close> returns and raises
  what leaves \<open>main\<close>. The interpreter ends the process with the code of a
  \<^verbatim>\<open>SystemExit\<close>, with 1 for any other exception, and with 0 otherwise.
\<close>

text \<open>Lines 200 to 206: the \<^verbatim>\<open>try\<close> statement with its two \<^verbatim>\<open>except\<close> clauses.\<close>

definition guarded_run :: "world \<Rightarrow> unit prog" where
  "guarded_run w =
     try_except (call (main w))
       (\<lambda>e s. if e = KeyboardInterrupt then (Next (), s)
              else if is_Exception e then (Next (), log (Logged ''Fatal error'' e) s)
              else (Raise e, s))"

text \<open>With the \<^verbatim>\<open>finally\<close> block of lines 207 to 209.\<close>

definition script :: "world \<Rightarrow> unit ctl \<times> state" where
  "script w =
     try_finally (guarded_run w) (\<lambda>s. (Raise (SystemExit 0), log Terminated s)) start"

definition exit_code :: "unit ctl \<Rightarrow> int" where
  "exit_code r = (case r of Raise (SystemExit c) \<Rightarrow> c | Raise e \<Rightarrow> 1 | r' \<Rightarrow> 0)"

subsection \<open>Reading traces\<close>

definition visible :: "event list \<Rightarrow> event list" where
  "visible tr = filter (\<lambda>e. e \<noteq> Signal) tr"

fun is_Request :: "event \<Rightarrow> bool" where
  "is_Request (Request topic p) = True"
| "is_Request e = False"

definition requests :: "event list \<Rightarrow> event list" where
  "requests tr = filter is_Request tr"

text \<open>A connect attempt fails when it raises an exception that the loop catches.\<close>

definition attempt_fails :: "world \<Rightarrow> nat \<Rightarrow> bool" where
  "attempt_fails w k = (case connect_outcome w k of None \<Rightarrow> False | Some e \<Rightarrow> is_Exception e)"

text \<open>
  A trace is consistent with a flag that has the value \<open>k\<close> at its start, is set by the
  signal handler only, and is read by every check.
\<close>

fun reads_flag :: "bool \<Rightarrow> event list \<Rightarrow> bool" where
  "reads_flag k [] = True"
| "reads_flag k (Signal # es) = reads_flag True es"
| "reads_flag k (Check b # es) = (b = k \<and> reads_flag k es)"
| "reads_flag k (e # es) = reads_flag k es"

subsection \<open>Reasoning about statements\<close>

text \<open>
  \<open>triple P m N R E\<close>: from a state with \<open>P\<close>, the statement \<open>m\<close> ends in a state with
  \<open>N\<close> when it falls through, with \<open>R\<close> when it returns, and with \<open>E e\<close> when it raises
  \<open>e\<close>.
\<close>

definition triple ::
  "(state \<Rightarrow> bool) \<Rightarrow> 'a prog \<Rightarrow> (state \<Rightarrow> bool) \<Rightarrow> (state \<Rightarrow> bool) \<Rightarrow> (exn \<Rightarrow> state \<Rightarrow> bool) \<Rightarrow> bool" where
  "triple P m N R E =
     (\<forall>s. P s \<longrightarrow>
        (case m s of (Next x, s') \<Rightarrow> N s' | (Return, s') \<Rightarrow> R s' | (Raise e, s') \<Rightarrow> E e s'))"

text \<open>
  \<open>I\<close> survives connecting, waiting, sleeping and a check that finds the flag unset;
  leaving from a state with \<open>I\<close> gives \<open>R\<close> (a return, also after a check that
  finds the flag set) or \<open>E\<close> (an exception).
\<close>

definition closed0 :: "(state \<Rightarrow> bool) \<Rightarrow> (state \<Rightarrow> bool) \<Rightarrow> (exn \<Rightarrow> state \<Rightarrow> bool) \<Rightarrow> bool" where
  "closed0 I R E =
     ((\<forall>s. I s \<longrightarrow> R s) \<and> (\<forall>s e. I s \<longrightarrow> E e s)
      \<and> (\<forall>w s. I s \<longrightarrow> I (await w Connect (s\<lparr>connects := Suc (connects s)\<rparr>)))
      \<and> (\<forall>w d s. I s \<longrightarrow> I (await w (Sleep d) s))
      \<and> (\<forall>w t s. I s \<longrightarrow> I (await w (WaitOpen t) s))
      \<and> (\<forall>s. I s \<longrightarrow> \<not> kill_now s \<longrightarrow> I (log (Check False) s))
      \<and> (\<forall>s. I s \<longrightarrow> kill_now s \<longrightarrow> R (log (Check True) s)))"

text \<open>\<open>I\<close> survives requests and the assignment of the current mode as well.\<close>

definition closed :: "(state \<Rightarrow> bool) \<Rightarrow> (state \<Rightarrow> bool) \<Rightarrow> (exn \<Rightarrow> state \<Rightarrow> bool) \<Rightarrow> bool" where
  "closed I R E =
     (closed0 I R E
      \<and> (\<forall>w t p s. I s \<longrightarrow> I (await w (Request t p) (s\<lparr>publishes := Suc (publishes s)\<rparr>)))
      \<and> (\<forall>s m. I s \<longrightarrow> I (s\<lparr>current_motion_switcher_mode := Some m\<rparr>)))"

subsection \<open>Properties of states and traces\<close>

text \<open>
  The trace and the flag agree: every check in the trace has read a flag that started
  unset and is set by the signal handler, and the flag is set now exactly when the handler
  has run.
\<close>

definition flag_inv :: "state \<Rightarrow> bool" where
  "flag_inv s = (reads_flag False (trace s) \<and> kill_now s = (Signal \<in> set (trace s)))"

text \<open>An event that neither sets nor reads the flag.\<close>

fun plain :: "event \<Rightarrow> bool" where
  "plain Signal = False"
| "plain (Check b) = False"
| "plain e = True"

text \<open>The connection object exists and the cleanup has not run.\<close>

definition no_cleanup :: "state \<Rightarrow> bool" where
  "no_cleanup s = (Cleanup \<notin> set (trace s) \<and> conn s)"

text \<open>
  No check has found the flag set so far; or one has, and it is the last thing that
  happened.
\<close>

definition unstopped :: "state \<Rightarrow> bool" where
  "unstopped s = (Check True \<notin> set (trace s) \<and> conn s)"

definition stopped_last :: "state \<Rightarrow> bool" where
  "stopped_last s =
     (conn s \<and> (Check True \<notin> set (trace s)
               \<or> (\<exists>pre. trace s = pre @ [Check True] \<and> Check True \<notin> set pre)))"

text \<open>
  What the \<^verbatim>\<open>except\<close> clauses of \<open>main\<close> add to the trace for the outcome \<open>r\<close> of the
  body, and what the \<^verbatim>\<open>finally\<close> block adds from the state \<open>s\<close>.
\<close>

definition handled :: "unit ctl \<Rightarrow> event list" where
  "handled r =
     (case r of
        Raise e \<Rightarrow>
          if is_Exception e
          then [Logged (if e = TimeoutError then ''Timeout error''
                        else if e = ConnectionError then ''Connection error''
                        else ''Unexpected error'') e]
          else []
      | r' \<Rightarrow> [])"

definition cleaned :: "world \<Rightarrow> state \<Rightarrow> event list" where
  "cleaned w s =
     (if conn s
      then Cleanup # (if signal_during w (awaits s) then [Sleep 1, Signal] else [Sleep 1])
      else [])"

text \<open>
  Before the mode query: nothing was requested and the current mode is unbound. After a
  return: nothing was requested. After an exception \<open>e\<close>: nothing was requested, or the
  mode query is the only request and \<open>e\<close> is the error of reading the unbound variable.
\<close>

definition before_query :: "state \<Rightarrow> bool" where
  "before_query s =
     (publishes s = 0 \<and> current_motion_switcher_mode s = None \<and> requests (trace s) = [] \<and> conn s)"

definition no_request :: "state \<Rightarrow> bool" where
  "no_request s = (requests (trace s) = [] \<and> conn s)"

definition query_failed :: "exn \<Rightarrow> state \<Rightarrow> bool" where
  "query_failed e s =
     (conn s
      \<and> (requests (trace s) = []
         \<or> (e = UnboundLocalError
            \<and> (\<exists>pre sg. trace s = pre @ Request ''MOTION_SWITCHER'' (Payload (Api 1001) None) # sg
                    \<and> requests pre = [] \<and> visible sg = []))))"

text \<open>What the command sequence does after its first check when nothing stops it.\<close>

definition tail_of_sequence :: "event list" where
  "tail_of_sequence =
     [Check False,
      Request ''SPORT_MOD'' (Payload (SPORT_CMD ''Hello'') None), Sleep 1,
      Request ''SPORT_MOD'' (Payload (SPORT_CMD ''Move'') (Some (XYZ (1 / 2) 0 0))), Sleep 3,
      Check False,
      Request ''SPORT_MOD'' (Payload (SPORT_CMD ''Move'') (Some (XYZ (- (1 / 2)) 0 0))), Sleep 3,
      Check False,
      Request ''MOTION_SWITCHER'' (Payload (Api 1002) (Some (Name ''ai''))), Sleep 10,
      Check False,
      Request ''SPORT_MOD'' (Payload (SPORT_CMD ''StandOut'') (Some (Data True))), Sleep 5,
      Request ''SPORT_MOD'' (Payload (SPORT_CMD ''StandOut'') (Some (Data False)))]"

subsection \<open>Some environments\<close>

definition calm :: world where
  "calm = \<lparr>ctor_outcome = None, connect_outcome = (\<lambda>k. None), wait_outcome = None,
           publish_outcome = (\<lambda>k. Inr (Response (Inr 0) (Inr ''normal''))),
           signal_during = (\<lambda>k. False)\<rparr>"

definition fails_twice :: world where
  "fails_twice = calm\<lparr>connect_outcome := (\<lambda>k. if k < 2 then Some ConnectionError else None)\<rparr>"

definition always_fails :: world where
  "always_fails = calm\<lparr>connect_outcome := (\<lambda>k. Some ConnectionError)\<rparr>"

definition driver_exits :: world where
  "driver_exits = calm\<lparr>connect_outcome := (\<lambda>k. Some (SystemExit 1))\<rparr>"

definition in_ai_mode :: world where
  "in_ai_mode = calm\<lparr>publish_outcome := (\<lambda>k. Inr (Response (Inr 0) (Inr ''ai'')))\<rparr>"

definition refused :: world where
  "refused = calm\<lparr>publish_outcome := (\<lambda>k. Inr (Response (Inr 3203) (Inr [])))\<rparr>"

definition publish_fails :: world where
  "publish_fails = calm\<lparr>publish_outcome := (\<lambda>k. Inl ConnectionError)\<rparr>"

text \<open>A signal during the pause after the greeting, and one during the pause in the stance.\<close>

definition greeting_interrupted :: world where
  "greeting_interrupted = calm\<lparr>signal_during := (\<lambda>k. k = 4)\<rparr>"

definition stance_interrupted :: world where
  "stance_interrupted = calm\<lparr>signal_during := (\<lambda>k. k = 12)\<rparr>"

text \<open>
  A first connect attempt that fails and a second that is cancelled; publish calls that are
  cancelled; a constructor that raises.
\<close>

definition cancelled_on_retry :: world where
  "cancelled_on_retry =
     calm\<lparr>connect_outcome := (\<lambda>k. if k = 0 then Some ConnectionError else Some CancelledError)\<rparr>"

definition publish_cancelled :: world where
  "publish_cancelled = calm\<lparr>publish_outcome := (\<lambda>k. Inl CancelledError)\<rparr>"

definition ctor_fails :: world where
  "ctor_fails = calm\<lparr>ctor_outcome := Some ValueError\<rparr>"

section \<open>The connection bootstrapper\<close>

lemma visible_append: "visible (xs @ ys) = visible xs @ visible ys"
  by (simp add: visible_def)

lemma await_trace:
  "trace (await w e s) = trace s @ (if signal_during w (awaits s) then [e, Signal] else [e])"
  by (simp add: await_def log_def handle_signal_def Let_def)

lemma await_connects: "connects (await w e s) = connects s"
  by (simp add: await_def log_def handle_signal_def Let_def)

lemma connect_step:
  "\<exists>new. trace (snd (connect w s)) = trace s @ new \<and> visible new = [Connect]
     \<and> connects (snd (connect w s)) = Suc (connects s)
     \<and> fst (connect w s) = connect_outcome w (connects s)"
  by (simp add: connect_def await_trace await_connects visible_def)

lemma sleep_step:
  "\<exists>new. trace (sleep w d s) = trace s @ new \<and> visible new = [Sleep d]
     \<and> connects (sleep w d s) = connects s"
  by (simp add: sleep_def await_trace await_connects visible_def)

lemma retry_loop_success:
  "\<lbrakk>attempt + int k < max_retries; \<forall>j<k. attempt_fails w (connects s + j);
    connect_outcome w (connects s + k) = None\<rbrakk>
   \<Longrightarrow> \<exists>s' new. retry_loop w max_retries delay attempt s = (Inr True, s')
         \<and> trace s' = trace s @ new
         \<and> visible new = concat (replicate k [Connect, Sleep delay]) @ [Connect]
         \<and> connects s' = connects s + Suc k"
proof (induction k arbitrary: attempt s)
  case 0
  obtain new where n: "trace (snd (connect w s)) = trace s @ new" "visible new = [Connect]"
    "connects (snd (connect w s)) = Suc (connects s)"
    "fst (connect w s) = connect_outcome w (connects s)"
    using connect_step by blast
  from 0 n have "fst (connect w s) = None" by simp
  then have "retry_loop w max_retries delay attempt s = (Inr True, snd (connect w s))"
    using 0 by (subst retry_loop.simps) (simp add: split_beta)
  with n show ?case by simp
next
  case (Suc k)
  obtain new where n: "trace (snd (connect w s)) = trace s @ new" "visible new = [Connect]"
    "connects (snd (connect w s)) = Suc (connects s)"
    "fst (connect w s) = connect_outcome w (connects s)"
    using connect_step by blast
  let ?s1 = "snd (connect w s)"
  let ?s2 = "sleep w delay ?s1"
  obtain new2 where n2: "trace ?s2 = trace ?s1 @ new2" "visible new2 = [Sleep delay]"
    "connects ?s2 = connects ?s1"
    using sleep_step by blast
  from Suc.prems(2) have "attempt_fails w (connects s)" by force
  then obtain e where e: "connect_outcome w (connects s) = Some e" "is_Exception e"
    by (auto simp: attempt_fails_def split: option.splits)
  have step: "retry_loop w max_retries delay attempt s
                = retry_loop w max_retries delay (attempt + 1) ?s2"
    using Suc.prems(1) e n(4) by (subst retry_loop.simps) (simp add: split_beta)
  have "\<exists>s' new. retry_loop w max_retries delay (attempt + 1) ?s2 = (Inr True, s')
         \<and> trace s' = trace ?s2 @ new
         \<and> visible new = concat (replicate k [Connect, Sleep delay]) @ [Connect]
         \<and> connects s' = connects ?s2 + Suc k"
  proof (rule Suc.IH)
    show "attempt + 1 + int k < max_retries" using Suc.prems(1) by simp
    show "\<forall>j<k. attempt_fails w (connects ?s2 + j)"
      using Suc.prems(2) n(3) n2(3) by (metis Suc_less_eq add_Suc_shift)
    show "connect_outcome w (connects ?s2 + k) = None"
      using Suc.prems(3) n(3) n2(3) by simp
  qed
  then obtain s' new3 where r: "retry_loop w max_retries delay (attempt + 1) ?s2 = (Inr True, s')"
    "trace s' = trace ?s2 @ new3"
    "visible new3 = concat (replicate k [Connect, Sleep delay]) @ [Connect]"
    "connects s' = connects ?s2 + Suc k" by blast
  show ?case
    using step r n n2 by (simp add: visible_append)
qed

lemma retry_loop_failure:
  "\<lbrakk>attempt + int (Suc k) = max_retries; \<forall>j<Suc k. attempt_fails w (connects s + j)\<rbrakk>
   \<Longrightarrow> \<exists>s' new. retry_loop w max_retries delay attempt s = (Inr False, s')
         \<and> trace s' = trace s @ new
         \<and> visible new = concat (replicate k [Connect, Sleep delay]) @ [Connect]
         \<and> connects s' = connects s + Suc k"
proof (induction k arbitrary: attempt s)
  case 0
  obtain new where n: "trace (snd (connect w s)) = trace s @ new" "visible new = [Connect]"
    "connects (snd (connect w s)) = Suc (connects s)"
    "fst (connect w s) = connect_outcome w (connects s)"
    using connect_step by blast
  from 0(2) have "attempt_fails w (connects s)" by force
  then obtain e where e: "connect_outcome w (connects s) = Some e" "is_Exception e"
    by (auto simp: attempt_fails_def split: option.splits)
  have "retry_loop w max_retries delay attempt s = (Inr False, snd (connect w s))"
    using 0(1) e n(4) by (subst retry_loop.simps) (simp add: split_beta)
  with n show ?case by simp
next
  case (Suc k)
  obtain new where n: "trace (snd (connect w s)) = trace s @ new" "visible new = [Connect]"
    "connects (snd (connect w s)) = Suc (connects s)"
    "fst (connect w s) = connect_outcome w (connects s)"
    using connect_step by blast
  let ?s1 = "snd (connect w s)"
  let ?s2 = "sleep w delay ?s1"
  obtain new2 where n2: "trace ?s2 = trace ?s1 @ new2" "visible new2 = [Sleep delay]"
    "connects ?s2 = connects ?s1"
    using sleep_step by blast
  from Suc.prems(2) have "attempt_fails w (connects s)" by force
  then obtain e where e: "connect_outcome w (connects s) = Some e" "is_Exception e"
    by (auto simp: attempt_fails_def split: option.splits)
  have step: "retry_loop w max_retries delay attempt s
                = retry_loop w max_retries delay (attempt + 1) ?s2"
    using Suc.prems(1) e n(4) by (subst retry_loop.simps) (simp add: split_beta)
  have "\<exists>s' new. retry_loop w max_retries delay (attempt + 1) ?s2 = (Inr False, s')
         \<and> trace s' = trace ?s2 @ new
         \<and> visible new = concat (replicate k [Connect, Sleep delay]) @ [Connect]
         \<and> connects s' = connects ?s2 + Suc k"
  proof (rule Suc.IH)
    show "attempt + 1 + int (Suc k) = max_retries" using Suc.prems(1) by simp
    show "\<forall>j<Suc k. attempt_fails w (connects ?s2 + j)"
      using Suc.prems(2) n(3) n2(3) by (metis Suc_less_eq add_Suc_shift)
  qed
  then obtain s' new3 where r: "retry_loop w max_retries delay (attempt + 1) ?s2 = (Inr False, s')"
    "trace s' = trace ?s2 @ new3"
    "visible new3 = concat (replicate k [Connect, Sleep delay]) @ [Connect]"
    "connects s' = connects ?s2 + Suc k" by blast
  show ?case
    using step r n n2 by (simp add: visible_append)
qed


lemma count_list_visible: "x \<noteq> Signal \<Longrightarrow> count_list (visible tr) x = count_list tr x"
  by (induction tr) (auto simp: visible_def)

lemma count_list_append: "count_list (xs @ ys) x = count_list xs x + count_list ys x"
  by (induction xs) auto

lemma count_rounds_Connect: "count_list (concat (replicate k [Connect, Sleep d]) @ [Connect]) Connect = Suc k"
  by (induction k) auto

lemma count_rounds_Sleep: "count_list (concat (replicate k [Connect, Sleep d]) @ [Connect]) (Sleep d) = k"
  by (induction k) auto

lemma retry_loop_escape:
  "\<lbrakk>attempt + int k < max_retries; \<forall>j<k. attempt_fails w (connects s + j);
    connect_outcome w (connects s + k) = Some e; \<not> is_Exception e\<rbrakk>
   \<Longrightarrow> \<exists>s' new. retry_loop w max_retries delay attempt s = (Inl e, s')
         \<and> trace s' = trace s @ new
         \<and> visible new = concat (replicate k [Connect, Sleep delay]) @ [Connect]"
proof (induction k arbitrary: attempt s)
  case 0
  obtain new where n: "trace (snd (connect w s)) = trace s @ new" "visible new = [Connect]"
    "connects (snd (connect w s)) = Suc (connects s)"
    "fst (connect w s) = connect_outcome w (connects s)"
    using connect_step by blast
  from 0 n have "fst (connect w s) = Some e" by simp
  then have "retry_loop w max_retries delay attempt s = (Inl e, snd (connect w s))"
    using 0 by (subst retry_loop.simps) (simp add: split_beta)
  with n show ?case by simp
next
  case (Suc k)
  obtain new where n: "trace (snd (connect w s)) = trace s @ new" "visible new = [Connect]"
    "connects (snd (connect w s)) = Suc (connects s)"
    "fst (connect w s) = connect_outcome w (connects s)"
    using connect_step by blast
  let ?s1 = "snd (connect w s)"
  let ?s2 = "sleep w delay ?s1"
  obtain new2 where n2: "trace ?s2 = trace ?s1 @ new2" "visible new2 = [Sleep delay]"
    "connects ?s2 = connects ?s1"
    using sleep_step by blast
  from Suc.prems(2) have "attempt_fails w (connects s)" by force
  then obtain e0 where e0: "connect_outcome w (connects s) = Some e0" "is_Exception e0"
    by (auto simp: attempt_fails_def split: option.splits)
  have step: "retry_loop w max_retries delay attempt s
                = retry_loop w max_retries delay (attempt + 1) ?s2"
    using Suc.prems(1) e0 n(4) by (subst retry_loop.simps) (simp add: split_beta)
  have "\<exists>s' new. retry_loop w max_retries delay (attempt + 1) ?s2 = (Inl e, s')
         \<and> trace s' = trace ?s2 @ new
         \<and> visible new = concat (replicate k [Connect, Sleep delay]) @ [Connect]"
  proof (rule Suc.IH)
    show "attempt + 1 + int k < max_retries" using Suc.prems(1) by simp
    show "\<forall>j<k. attempt_fails w (connects ?s2 + j)"
      using Suc.prems(2) n(3) n2(3) by (metis Suc_less_eq add_Suc_shift)
    show "connect_outcome w (connects ?s2 + k) = Some e"
      using Suc.prems(3) n(3) n2(3) by simp
    show "\<not> is_Exception e" by (rule Suc.prems(4))
  qed
  then obtain s' new3 where r: "retry_loop w max_retries delay (attempt + 1) ?s2 = (Inl e, s')"
    "trace s' = trace ?s2 @ new3"
    "visible new3 = concat (replicate k [Connect, Sleep delay]) @ [Connect]" by blast
  show ?case
    using step r n n2 by (simp add: visible_append)
qed

text \<open>
  Claim C1, amended. With \<open>max_retries \<ge> 1\<close>, whatever signals arrive, and with a failed
  attempt being one that raises an exception derived from \<^verbatim>\<open>Exception\<close>: when the
  attempts before attempt \<open>k\<close> fail and attempt \<open>k\<close> succeeds (\<open>k < max_retries\<close>), the
  function returns true and has done, in this order, \<open>k\<close> rounds of one connect and one
  sleep of \<open>delay\<close> and then one connect (\<open>k + 1\<close> attempts, \<open>k\<close> sleeps); when all
  \<open>max_retries\<close> attempts fail, it returns false after \<open>max_retries - 1\<close> such rounds and
  a last connect (\<open>max_retries\<close> attempts, \<open>max_retries - 1\<close> sleeps, none after the last
  attempt). When the attempts before attempt \<open>k\<close> fail and attempt \<open>k\<close> raises an exception
  that does not derive from \<^verbatim>\<open>Exception\<close>, the loop ends there, after \<open>k + 1\<close> attempts
  and \<open>k\<close> sleeps, and the exception leaves the function.
\<close>

theorem connect_with_retry_attempts:
  assumes "1 \<le> max_retries"
  shows "(\<forall>k. int k < max_retries \<and> (\<forall>j<k. attempt_fails w (connects s + j))
              \<and> connect_outcome w (connects s + k) = None \<longrightarrow>
            (\<exists>s' new. connect_with_retry w max_retries delay s = (Inr True, s')
               \<and> trace s' = trace s @ new
               \<and> visible new = concat (replicate k [Connect, Sleep delay]) @ [Connect]
               \<and> count_list new Connect = Suc k \<and> count_list new (Sleep delay) = k))
       \<and> ((\<forall>j<nat max_retries. attempt_fails w (connects s + j)) \<longrightarrow>
            (\<exists>s' new. connect_with_retry w max_retries delay s = (Inr False, s')
               \<and> trace s' = trace s @ new
               \<and> visible new = concat (replicate (nat max_retries - 1) [Connect, Sleep delay]) @ [Connect]
               \<and> count_list new Connect = nat max_retries
               \<and> count_list new (Sleep delay) = nat max_retries - 1))
       \<and> (\<forall>k e. int k < max_retries \<and> (\<forall>j<k. attempt_fails w (connects s + j))
              \<and> connect_outcome w (connects s + k) = Some e \<and> \<not> is_Exception e \<longrightarrow>
            (\<exists>s' new. connect_with_retry w max_retries delay s = (Inl e, s')
               \<and> trace s' = trace s @ new
               \<and> visible new = concat (replicate k [Connect, Sleep delay]) @ [Connect]
               \<and> count_list new Connect = Suc k \<and> count_list new (Sleep delay) = k))"
proof (intro conjI allI impI)
  fix k
  assume h: "int k < max_retries \<and> (\<forall>j<k. attempt_fails w (connects s + j))
              \<and> connect_outcome w (connects s + k) = None"
  then obtain s' new where r: "retry_loop w max_retries delay 0 s = (Inr True, s')"
    "trace s' = trace s @ new"
    "visible new = concat (replicate k [Connect, Sleep delay]) @ [Connect]"
    using retry_loop_success [of 0 k max_retries w s delay] by auto
  have "count_list new Connect = Suc k"
    using count_list_visible [of Connect new] r(3) count_rounds_Connect by simp
  moreover have "count_list new (Sleep delay) = k"
    using count_list_visible [of "Sleep delay" new] r(3) count_rounds_Sleep by simp
  ultimately show "\<exists>s' new. connect_with_retry w max_retries delay s = (Inr True, s')
               \<and> trace s' = trace s @ new
               \<and> visible new = concat (replicate k [Connect, Sleep delay]) @ [Connect]
               \<and> count_list new Connect = Suc k \<and> count_list new (Sleep delay) = k"
    using r by (auto simp: connect_with_retry_def)
next
  assume h: "\<forall>j<nat max_retries. attempt_fails w (connects s + j)"
  obtain n where n: "nat max_retries = Suc n" using assms by (cases "nat max_retries") auto
  then have m: "0 + int (Suc n) = max_retries" using assms by linarith
  obtain s' new where r: "retry_loop w max_retries delay 0 s = (Inr False, s')"
    "trace s' = trace s @ new"
    "visible new = concat (replicate n [Connect, Sleep delay]) @ [Connect]"
    using retry_loop_failure [OF m, of w s delay] h n by auto
  have "count_list new Connect = Suc n"
    using count_list_visible [of Connect new] r(3) count_rounds_Connect by simp
  moreover have "count_list new (Sleep delay) = n"
    using count_list_visible [of "Sleep delay" new] r(3) count_rounds_Sleep by simp
  ultimately show "\<exists>s' new. connect_with_retry w max_retries delay s = (Inr False, s')
               \<and> trace s' = trace s @ new
               \<and> visible new = concat (replicate (nat max_retries - 1) [Connect, Sleep delay]) @ [Connect]
               \<and> count_list new Connect = nat max_retries
               \<and> count_list new (Sleep delay) = nat max_retries - 1"
    using r n by (auto simp: connect_with_retry_def)
next
  fix k e
  assume h: "int k < max_retries \<and> (\<forall>j<k. attempt_fails w (connects s + j))
              \<and> connect_outcome w (connects s + k) = Some e \<and> \<not> is_Exception e"
  then obtain s' new where r: "retry_loop w max_retries delay 0 s = (Inl e, s')"
    "trace s' = trace s @ new"
    "visible new = concat (replicate k [Connect, Sleep delay]) @ [Connect]"
    using retry_loop_escape [of 0 k max_retries w s e delay] by auto
  have "count_list new Connect = Suc k"
    using count_list_visible [of Connect new] r(3) count_rounds_Connect by simp
  moreover have "count_list new (Sleep delay) = k"
    using count_list_visible [of "Sleep delay" new] r(3) count_rounds_Sleep by simp
  ultimately show "\<exists>s' new. connect_with_retry w max_retries delay s = (Inl e, s')
               \<and> trace s' = trace s @ new
               \<and> visible new = concat (replicate k [Connect, Sleep delay]) @ [Connect]
               \<and> count_list new Connect = Suc k \<and> count_list new (Sleep delay) = k"
    using r by (auto simp: connect_with_retry_def)
qed

text \<open>
  The two stubs of the specification: one that fails twice and then succeeds, and one that
  always fails, each tried at most three times.
\<close>

theorem connect_with_retry_attempts_witness:
  "(1::int) \<le> 3
   \<and> fst (connect_with_retry fails_twice 3 5 start) = Inr True
   \<and> count_list (trace (snd (connect_with_retry fails_twice 3 5 start))) Connect = 3
   \<and> count_list (trace (snd (connect_with_retry fails_twice 3 5 start))) (Sleep 5) = 2
   \<and> fst (connect_with_retry always_fails 3 5 start) = Inr False
   \<and> count_list (trace (snd (connect_with_retry always_fails 3 5 start))) Connect = 3
   \<and> count_list (trace (snd (connect_with_retry always_fails 3 5 start))) (Sleep 5) = 2"
proof -
  have one: "(1::int) \<le> 3" by simp
  have a: "int 2 < 3 \<and> (\<forall>j<2. attempt_fails fails_twice (connects start + j))
              \<and> connect_outcome fails_twice (connects start + 2) = None"
    by (simp add: attempt_fails_def fails_twice_def calm_def start_def)
  have b: "\<forall>j<nat 3. attempt_fails always_fails (connects start + j)"
    by (simp add: attempt_fails_def always_fails_def calm_def)
  have ta: "trace start = []" by (simp add: start_def)
  from connect_with_retry_attempts [OF one, of fails_twice start 5] a
  obtain s1 new1 where "connect_with_retry fails_twice 3 5 start = (Inr True, s1)"
    "trace s1 = trace start @ new1" "count_list new1 Connect = Suc 2" "count_list new1 (Sleep 5) = 2"
    by blast
  moreover from connect_with_retry_attempts [OF one, of always_fails start 5] b
  obtain s2 new2 where "connect_with_retry always_fails 3 5 start = (Inr False, s2)"
    "trace s2 = trace start @ new2" "count_list new2 Connect = nat 3" "count_list new2 (Sleep 5) = nat 3 - 1"
    by blast
  ultimately show ?thesis using ta by simp
qed

lemma cancelled_on_retry_run:
  "\<exists>s' new. connect_with_retry cancelled_on_retry 3 5 start = (Inl CancelledError, s')
      \<and> trace s' = trace start @ new \<and> visible new = [Connect, Sleep 5, Connect]"
proof -
  have a: "(0::int) + int 1 < 3" by simp
  have b: "\<forall>j<1. attempt_fails cancelled_on_retry (connects start + j)"
    by (simp add: attempt_fails_def cancelled_on_retry_def calm_def start_def)
  have c: "connect_outcome cancelled_on_retry (connects start + 1) = Some CancelledError"
    by (simp add: cancelled_on_retry_def calm_def start_def)
  have d: "\<not> is_Exception CancelledError" by simp
  from retry_loop_escape [OF a b c d, of 5] show ?thesis
    by (simp add: connect_with_retry_def)
qed

text \<open>
  Claim C1 as stated fails: not every outcome of a connect attempt is a success or a
  caught failure. With a first attempt that raises \<^verbatim>\<open>ConnectionError\<close> and a second
  that raises \<^verbatim>\<open>CancelledError\<close>, the function makes two of its three attempts and
  returns nothing: the second exception leaves it.
\<close>

theorem connect_with_retry_cancelled:
  "fst (connect_with_retry cancelled_on_retry 3 5 start) = Inl CancelledError
   \<and> count_list (trace (snd (connect_with_retry cancelled_on_retry 3 5 start))) Connect = 2"
proof -
  from cancelled_on_retry_run obtain s' new where
    r: "connect_with_retry cancelled_on_retry 3 5 start = (Inl CancelledError, s')"
    "trace s' = trace start @ new" "visible new = [Connect, Sleep 5, Connect]" by blast
  have "count_list new Connect = count_list (visible new) Connect"
    by (simp add: count_list_visible)
  then show ?thesis using r by (simp add: start_def)
qed

text \<open>
  Claim C9. With \<open>max_retries \<le> 0\<close> the function returns false and leaves the state as it
  was: no connect attempt, no sleep.
\<close>

theorem connect_with_retry_no_attempts:
  "max_retries \<le> 0 \<Longrightarrow> connect_with_retry w max_retries delay s = (Inr False, s)"
  by (simp add: connect_with_retry_def retry_loop.simps)

theorem connect_with_retry_no_attempts_witness:
  "(0::int) \<le> 0 \<and> connect_with_retry always_fails 0 5 start = (Inr False, start)
   \<and> connect_with_retry calm (- 1) 5 start = (Inr False, start)"
  using connect_with_retry_no_attempts [of 0 always_fails 5 start]
    connect_with_retry_no_attempts [of "- 1" calm 5 start] by simp

lemma retry_loop_returns:
  "\<forall>k e. connect_outcome w k = Some e \<longrightarrow> is_Exception e
   \<Longrightarrow> \<exists>b s'. retry_loop w max_retries delay attempt s = (Inr b, s')"
proof (induction w max_retries delay attempt s rule: retry_loop.induct)
  case (1 w max_retries delay attempt s)
  show ?case
  proof (cases "attempt < max_retries")
    case False
    then show ?thesis by (subst retry_loop.simps) auto
  next
    case True
    show ?thesis
    proof (cases "fst (connect w s)")
      case None
      then show ?thesis using True by (subst retry_loop.simps) (auto simp: split_beta)
    next
      case (Some e)
      then have "connect_outcome w (connects s) = Some e" by (simp add: connect_def)
      with 1(2) have ex: "is_Exception e" by blast
      show ?thesis
      proof (cases "attempt < max_retries - 1")
        case False
        then show ?thesis using True Some ex by (subst retry_loop.simps) (auto simp: split_beta)
      next
        case t: True
        have "\<exists>b s'. retry_loop w max_retries delay (attempt + 1) (sleep w delay (snd (connect w s))) = (Inr b, s')"
          using 1(1) [OF True _ Some ex t] 1(2) by (simp add: prod_eq_iff)
        then show ?thesis using True Some ex t by (subst retry_loop.simps) (auto simp: split_beta)
      qed
    qed
  qed
qed

lemma retry_loop_raises:
  "retry_loop w max_retries delay attempt s = (Inl e, s') \<Longrightarrow> \<not> is_Exception e"
proof (induction w max_retries delay attempt s rule: retry_loop.induct)
  case (1 w max_retries delay attempt s)
  show ?case
  proof (cases "attempt < max_retries")
    case False
    then show ?thesis using 1(2) by (subst (asm) retry_loop.simps) simp
  next
    case True
    show ?thesis
    proof (cases "fst (connect w s)")
      case None
      then show ?thesis using True 1(2)
        by (subst (asm) retry_loop.simps) (simp add: split_beta)
    next
      case (Some e0)
      show ?thesis
      proof (cases "is_Exception e0")
        case False
        then show ?thesis using True Some 1(2)
          by (subst (asm) retry_loop.simps) (auto simp: split_beta)
      next
        case ex: True
        show ?thesis
        proof (cases "attempt < max_retries - 1")
          case False
          then show ?thesis using True Some ex 1(2)
            by (subst (asm) retry_loop.simps) (simp add: split_beta)
        next
          case t: True
          have "retry_loop w max_retries delay (attempt + 1) (sleep w delay (snd (connect w s))) = (Inl e, s')"
            using True Some ex t 1(2) by (subst (asm) retry_loop.simps) (simp add: split_beta)
          then show ?thesis
            using 1(1) [OF True _ Some ex t] by (simp add: prod_eq_iff)
        qed
      qed
    qed
  qed
qed

lemma connect_with_retry_result:
  assumes ex: "\<forall>k e. connect_outcome w k = Some e \<longrightarrow> is_Exception e"
  shows "fst (connect_with_retry w max_retries delay s)
           = Inr (\<exists>j. int j < max_retries \<and> connect_outcome w (connects s + j) = None)"
proof (cases "\<exists>j. int j < max_retries \<and> connect_outcome w (connects s + j) = None")
  case True
  define k where "k = (LEAST j. int j < max_retries \<and> connect_outcome w (connects s + j) = None)"
  have k: "int k < max_retries \<and> connect_outcome w (connects s + k) = None"
    unfolding k_def using True by (rule LeastI_ex)
  have "\<forall>j<k. attempt_fails w (connects s + j)"
  proof (intro allI impI)
    fix j assume j: "j < k"
    then have "\<not> (int j < max_retries \<and> connect_outcome w (connects s + j) = None)"
      unfolding k_def by (rule not_less_Least)
    moreover have "int j < max_retries" using j k by linarith
    ultimately obtain e where "connect_outcome w (connects s + j) = Some e" by auto
    with ex show "attempt_fails w (connects s + j)" by (simp add: attempt_fails_def)
  qed
  with k have "\<exists>s' new. retry_loop w max_retries delay 0 s = (Inr True, s')
         \<and> trace s' = trace s @ new
         \<and> visible new = concat (replicate k [Connect, Sleep delay]) @ [Connect]
         \<and> connects s' = connects s + Suc k"
    using retry_loop_success [of 0 k max_retries w s delay] by simp
  then show ?thesis using True by (auto simp: connect_with_retry_def)
next
  case False
  show ?thesis
  proof (cases "max_retries \<le> 0")
    case True
    then show ?thesis using False by (simp add: connect_with_retry_def retry_loop.simps)
  next
    case pos: False
    then obtain n where n: "nat max_retries = Suc n" by (cases "nat max_retries") auto
    then have m: "0 + int (Suc n) = max_retries" using pos by linarith
    have "\<forall>j<Suc n. attempt_fails w (connects s + j)"
    proof (intro allI impI)
      fix j assume "j < Suc n"
      then have "int j < max_retries" using m by linarith
      with False obtain e where "connect_outcome w (connects s + j) = Some e" by auto
      with ex show "attempt_fails w (connects s + j)" by (simp add: attempt_fails_def)
    qed
    from retry_loop_failure [OF m this, of delay]
    show ?thesis using False by (auto simp: connect_with_retry_def)
  qed
qed

text \<open>
  Claim C2, amended. An exception derived from \<^verbatim>\<open>Exception\<close> that a connect attempt
  raises is caught and counts as a failed attempt: when connect raises no other exceptions,
  the function returns a boolean, true exactly when one of its \<open>max_retries\<close> attempts
  returns. An exception that does not derive from \<^verbatim>\<open>Exception\<close> is not caught: raised
  by an attempt that the loop reaches, it leaves the function. Nothing else leaves it: an
  exception that \<open>connect_with_retry\<close> raises never derives from \<^verbatim>\<open>Exception\<close>.
\<close>

theorem connect_with_retry_catches_Exception:
  "((\<forall>k e. connect_outcome w k = Some e \<longrightarrow> is_Exception e) \<longrightarrow>
      fst (connect_with_retry w max_retries delay s)
        = Inr (\<exists>j. int j < max_retries \<and> connect_outcome w (connects s + j) = None))
   \<and> (int k < max_retries \<and> (\<forall>j<k. attempt_fails w (connects s + j))
        \<and> connect_outcome w (connects s + k) = Some e \<and> \<not> is_Exception e \<longrightarrow>
      fst (connect_with_retry w max_retries delay s) = Inl e)
   \<and> (fst (connect_with_retry w max_retries delay s) = Inl e' \<longrightarrow> \<not> is_Exception e')"
proof (intro conjI impI)
  assume "\<forall>k e. connect_outcome w k = Some e \<longrightarrow> is_Exception e"
  then show "fst (connect_with_retry w max_retries delay s)
        = Inr (\<exists>j. int j < max_retries \<and> connect_outcome w (connects s + j) = None)"
    by (rule connect_with_retry_result)
next
  assume "int k < max_retries \<and> (\<forall>j<k. attempt_fails w (connects s + j))
        \<and> connect_outcome w (connects s + k) = Some e \<and> \<not> is_Exception e"
  then show "fst (connect_with_retry w max_retries delay s) = Inl e"
    using retry_loop_escape [of 0 k max_retries w s e delay]
    by (auto simp: connect_with_retry_def)
next
  assume "fst (connect_with_retry w max_retries delay s) = Inl e'"
  then show "\<not> is_Exception e'"
    using retry_loop_raises [of w max_retries delay 0 s e' "snd (retry_loop w max_retries delay 0 s)"]
    by (simp add: connect_with_retry_def prod_eq_iff)
qed

theorem connect_with_retry_catches_Exception_witness:
  "fst (connect_with_retry fails_twice 3 5 start) = Inr True
   \<and> fst (connect_with_retry always_fails 3 5 start) = Inr False
   \<and> fst (connect_with_retry cancelled_on_retry 3 5 start) = Inl CancelledError"
proof -
  have a: "\<forall>k e. connect_outcome fails_twice k = Some e \<longrightarrow> is_Exception e"
    by (auto simp: fails_twice_def calm_def split: if_splits)
  have a': "\<exists>j. int j < 3 \<and> connect_outcome fails_twice (connects start + j) = None"
    by (rule exI [of _ 2]) (simp add: fails_twice_def calm_def)
  have b: "\<forall>k e. connect_outcome always_fails k = Some e \<longrightarrow> is_Exception e"
    by (auto simp: always_fails_def calm_def)
  have b': "\<not> (\<exists>j. int j < 3 \<and> connect_outcome always_fails (connects start + j) = None)"
    by (simp add: always_fails_def calm_def)
  have c: "int 1 < 3 \<and> (\<forall>j<1. attempt_fails cancelled_on_retry (connects start + j))
        \<and> connect_outcome cancelled_on_retry (connects start + 1) = Some CancelledError
        \<and> \<not> is_Exception CancelledError"
    by (simp add: attempt_fails_def cancelled_on_retry_def calm_def start_def)
  from connect_with_retry_catches_Exception [of fails_twice 3 5 start] a a'
  have 1: "fst (connect_with_retry fails_twice 3 5 start) = Inr True" by simp
  from connect_with_retry_catches_Exception [of always_fails 3 5 start] b b'
  have 2: "fst (connect_with_retry always_fails 3 5 start) = Inr False" by simp
  from connect_with_retry_catches_Exception [of cancelled_on_retry 3 5 start 1 CancelledError] c
  have 3: "fst (connect_with_retry cancelled_on_retry 3 5 start) = Inl CancelledError" by blast
  from 1 2 3 show ?thesis by simp
qed

text \<open>
  Claim C2 as stated fails: \<^verbatim>\<open>except Exception\<close> does not catch an exception that
  derives from \<^verbatim>\<open>BaseException\<close> only. A connect that raises \<^verbatim>\<open>SystemExit\<close>
  makes \<open>connect_with_retry\<close> raise it.
\<close>

theorem connect_with_retry_raises_SystemExit:
  "fst (connect_with_retry driver_exits 3 5 start) = Inl (SystemExit 1)"
  by (simp add: connect_with_retry_def retry_loop.simps connect_def driver_exits_def calm_def
        start_def)

section \<open>Rules for statements\<close>

lemma tripleI:
  "(\<And>s. P s \<Longrightarrow> (case m s of (Next x, s') \<Rightarrow> N s' | (Return, s') \<Rightarrow> R s' | (Raise e, s') \<Rightarrow> E e s'))
   \<Longrightarrow> triple P m N R E"
  by (simp add: triple_def)

lemma triple_and_then:
  assumes "triple P m Q R E" and "\<And>x. triple Q (f x) N R E"
  shows "triple P (and_then m f) N R E"
  unfolding triple_def
proof (intro allI impI)
  fix s assume "P s"
  with assms(1) have a: "case m s of (Next x, s') \<Rightarrow> Q s' | (Return, s') \<Rightarrow> R s' | (Raise e, s') \<Rightarrow> E e s'"
    by (simp add: triple_def)
  obtain r s1 where ms: "m s = (r, s1)" by (cases "m s")
  show "case and_then m f s of (Next x, s') \<Rightarrow> N s' | (Return, s') \<Rightarrow> R s' | (Raise e, s') \<Rightarrow> E e s'"
  proof (cases r)
    case (Next x)
    with a ms have "Q s1" by simp
    with assms(2) [of x] have "case f x s1 of (Next x, s') \<Rightarrow> N s' | (Return, s') \<Rightarrow> R s' | (Raise e, s') \<Rightarrow> E e s'"
      by (simp add: triple_def)
    then show ?thesis using ms Next by (simp add: and_then_def)
  next
    case Return
    then show ?thesis using a ms by (simp add: and_then_def)
  next
    case (Raise e)
    then show ?thesis using a ms by (simp add: and_then_def)
  qed
qed

lemma triple_seq:
  "triple I m I R E \<Longrightarrow> (\<And>x. triple I (f x) N R E) \<Longrightarrow> triple I (and_then m f) N R E"
  by (rule triple_and_then)

lemma triple_if:
  "(c \<Longrightarrow> triple P m N R E) \<Longrightarrow> (\<not> c \<Longrightarrow> triple P n N R E)
   \<Longrightarrow> triple P (if c then m else n) N R E"
  by simp

lemma triple_skip: "triple P skip P R E"
  by (simp add: triple_def skip_def)

lemma triple_return: "(\<And>s. P s \<Longrightarrow> R s) \<Longrightarrow> triple P (\<lambda>s. (Return, s)) N R E"
  by (simp add: triple_def)

lemma closed0_pause: "closed0 I R E \<Longrightarrow> triple I (pause w d) I R E"
  by (simp add: closed0_def triple_def pause_def sleep_def)

lemma closed0_wait: "closed0 I R E \<Longrightarrow> triple I (wait_datachannel_open w t) I R E"
  by (auto simp: closed0_def triple_def wait_datachannel_open_def Let_def split: option.splits)

lemma closed0_check: "closed0 I R E \<Longrightarrow> triple I return_if_killed I R E"
  by (simp add: closed0_def triple_def return_if_killed_def)

lemma closed0_retry_loop:
  assumes "closed0 I R E" and "I s"
  shows "case retry_loop w max_retries delay attempt s of
           (Inl e, s') \<Rightarrow> E e s' | (Inr b, s') \<Rightarrow> I s'"
  using assms(2)
proof (induction w max_retries delay attempt s rule: retry_loop.induct)
  case (1 w max_retries delay attempt s)
  have c: "I (snd (connect w s))"
    using assms(1) 1(2) by (simp add: closed0_def connect_def)
  show ?case
  proof (cases "attempt < max_retries")
    case False
    then show ?thesis using 1(2) by (subst retry_loop.simps) simp
  next
    case True
    show ?thesis
    proof (cases "fst (connect w s)")
      case None
      then show ?thesis using True c by (subst retry_loop.simps) (simp add: split_beta)
    next
      case (Some e)
      show ?thesis
      proof (cases "is_Exception e")
        case False
        have "E e (snd (connect w s))" using assms(1) c by (simp add: closed0_def)
        then show ?thesis using True Some False by (subst retry_loop.simps) (simp add: split_beta)
      next
        case ex: True
        show ?thesis
        proof (cases "attempt < max_retries - 1")
          case False
          then show ?thesis using True Some ex c by (subst retry_loop.simps) (simp add: split_beta)
        next
          case t: True
          have "I (sleep w delay (snd (connect w s)))"
            using assms(1) c by (simp add: closed0_def sleep_def)
          then have "case retry_loop w max_retries delay (attempt + 1) (sleep w delay (snd (connect w s))) of
             (Inl e, s') \<Rightarrow> E e s' | (Inr b, s') \<Rightarrow> I s'"
            using 1(1) [OF True _ Some ex t] by (simp add: prod_eq_iff)
          then show ?thesis using True Some ex t by (subst retry_loop.simps) (simp add: split_beta)
        qed
      qed
    qed
  qed
qed

lemma closed0_connect_with_retry:
  "closed0 I R E \<Longrightarrow> triple I (call (connect_with_retry w max_retries delay)) I R E"
  unfolding triple_def call_def connect_with_retry_def
proof (intro allI impI)
  fix s assume c: "closed0 I R E" and i: "I s"
  obtain r s1 where rs: "retry_loop w max_retries delay 0 s = (r, s1)"
    by (cases "retry_loop w max_retries delay 0 s")
  from closed0_retry_loop [OF c i, of w max_retries delay 0] rs
  show "case case retry_loop w max_retries delay 0 s of (Inl e, s1) \<Rightarrow> (Raise e, s1) | (Inr x, s1) \<Rightarrow> (Next x, s1) of
          (Next x, s') \<Rightarrow> I s' | (Return, s') \<Rightarrow> R s' | (Raise e, s') \<Rightarrow> E e s'"
    by (cases r) simp_all
qed

lemma closed_closed0: "closed I R E \<Longrightarrow> closed0 I R E"
  by (simp add: closed_def)

lemma closed_publish: "closed I R E \<Longrightarrow> triple I (publish_request_new w t p) I R E"
  by (auto simp: closed_def closed0_def triple_def publish_request_new_def Let_def split: sum.splits)

lemma closed_read_mode: "closed I R E \<Longrightarrow> triple I (read_mode r) I R E"
  by (auto simp: closed_def closed0_def triple_def read_mode_def split: sum.splits)

lemma closed_load_mode: "closed I R E \<Longrightarrow> triple I load_mode I R E"
  by (auto simp: closed_def closed0_def triple_def load_mode_def split: option.splits)

lemma closed_query_mode:
  assumes c: "closed I R E" shows "triple I (query_mode w) I R E"
  unfolding query_mode_def
  by (intro triple_seq closed_publish [OF c] closed_read_mode [OF c])

lemma closed_switch_to_normal:
  assumes c: "closed I R E" shows "triple I (switch_to_normal w) I R E"
  unfolding switch_to_normal_def
  by (intro triple_seq triple_if closed_load_mode [OF c] closed_publish [OF c] triple_skip
        closed0_pause [OF closed_closed0 [OF c]])

lemma closed_normal_mode:
  assumes c: "closed I R E" shows "triple I (normal_mode w) I R E"
  unfolding normal_mode_def
  by (intro triple_seq closed_query_mode [OF c] closed_switch_to_normal [OF c]
        closed0_check [OF closed_closed0 [OF c]])

lemma closed_hello_and_forward:
  assumes c: "closed I R E" shows "triple I (hello_and_forward w) I R E"
  unfolding hello_and_forward_def
  by (intro triple_seq closed_publish [OF c] closed0_pause [OF closed_closed0 [OF c]]
        closed0_check [OF closed_closed0 [OF c]])

lemma closed_move_backward:
  assumes c: "closed I R E" shows "triple I (move_backward w) I R E"
  unfolding move_backward_def
  by (intro triple_seq closed_publish [OF c] closed0_pause [OF closed_closed0 [OF c]]
        closed0_check [OF closed_closed0 [OF c]])

lemma closed_ai_mode:
  assumes c: "closed I R E" shows "triple I (ai_mode w) I R E"
  unfolding ai_mode_def
  by (intro triple_seq closed_publish [OF c] closed0_pause [OF closed_closed0 [OF c]]
        closed0_check [OF closed_closed0 [OF c]])

lemma closed_handstand:
  assumes c: "closed I R E" shows "triple I (handstand w) I R E"
  unfolding handstand_def
  by (intro triple_seq closed_publish [OF c] closed0_pause [OF closed_closed0 [OF c]]
        triple_skip)

lemma closed0_idle_loop: "closed0 I R E \<Longrightarrow> triple I (idle_loop w n) R R E"
  unfolding triple_def
proof (induction n)
  case 0
  then show ?case by (simp add: closed0_def)
next
  case (Suc n)
  show ?case
  proof (intro allI impI)
    fix s assume i: "I s"
    show "case idle_loop w (Suc n) s of (Next x, s') \<Rightarrow> R s' | (Return, s') \<Rightarrow> R s' | (Raise e, s') \<Rightarrow> E e s'"
    proof (cases "kill_now s")
      case True
      then show ?thesis using Suc.prems i by (simp add: closed0_def)
    next
      case False
      have "I (sleep w 1 (log (Check False) s))"
        using Suc.prems i False by (simp add: closed0_def sleep_def)
      then show ?thesis using Suc.IH [OF Suc.prems] False by simp
    qed
  qed
qed

lemma closed_command_sequence:
  assumes c: "closed I R E" shows "triple I (command_sequence w) R R E"
  unfolding command_sequence_def
  by (intro triple_seq closed_normal_mode [OF c] closed_hello_and_forward [OF c]
        closed_move_backward [OF c] closed_ai_mode [OF c] closed_handstand [OF c]
        closed0_idle_loop [OF closed_closed0 [OF c]])

lemma closed0_session:
  assumes c: "closed0 I R E" and cs: "triple I (command_sequence w) R R E"
  shows "triple I (session w) R R E"
proof -
  have r: "\<And>s. I s \<Longrightarrow> R s" using c by (simp add: closed0_def)
  show ?thesis
    unfolding session_def
    by (intro triple_seq triple_if triple_return closed0_connect_with_retry [OF c]
          closed0_wait [OF c] closed0_check [OF c] cs r)
qed

lemma closed_session:
  assumes c: "closed I R E" shows "triple I (session w) R R E"
  by (rule closed0_session [OF closed_closed0 [OF c] closed_command_sequence [OF c]])

section \<open>The command sequence\<close>

lemma log_fields [simp]:
  "trace (log e s) = trace s @ [e]" "kill_now (log e s) = kill_now s" "conn (log e s) = conn s"
  "current_motion_switcher_mode (log e s) = current_motion_switcher_mode s"
  "connects (log e s) = connects s" "publishes (log e s) = publishes s"
  "awaits (log e s) = awaits s"
  by (simp_all add: log_def)

lemma await_fields [simp]:
  "trace (await w e s) = trace s @ (if signal_during w (awaits s) then [e, Signal] else [e])"
  "kill_now (await w e s) = (kill_now s \<or> signal_during w (awaits s))"
  "conn (await w e s) = conn s"
  "current_motion_switcher_mode (await w e s) = current_motion_switcher_mode s"
  "connects (await w e s) = connects s" "publishes (await w e s) = publishes s"
  "awaits (await w e s) = Suc (awaits s)"
  by (simp_all add: await_def handle_signal_def Let_def)

text \<open>
  Claim C4. When the mode query gets a response whose status code is not zero, the query
  falls through without assigning the current mode: the variable is what it was before
  (in \<open>main\<close>: unbound).
\<close>

theorem query_mode_nonzero_status:
  assumes "publish_outcome w (publishes s) = Inr r" and "status_code r = Inr c" and "c \<noteq> 0"
  shows "read_mode r s = (Next (), s)
       \<and> fst (query_mode w s) = Next ()
       \<and> current_motion_switcher_mode (snd (query_mode w s)) = current_motion_switcher_mode s"
  using assms by (simp add: query_mode_def and_then_def publish_request_new_def read_mode_def Let_def)

theorem query_mode_nonzero_status_witness:
  "publish_outcome refused (publishes start) = Inr (Response (Inr 3203) (Inr []))
   \<and> fst (query_mode refused start) = Next ()
   \<and> current_motion_switcher_mode (snd (query_mode refused start)) = None"
proof -
  have a: "publish_outcome refused (publishes start) = Inr (Response (Inr 3203) (Inr []))"
    by (simp add: refused_def calm_def)
  have b: "status_code (Response (Inr 3203) (Inr [])) = Inr 3203" by simp
  have c: "(3203::int) \<noteq> 0" by simp
  from query_mode_nonzero_status [OF a b c] a show ?thesis by (simp add: start_def)
qed

text \<open>
  Claim C5. When the current mode is \<open>normal\<close>, lines 81 to 91 do nothing: no request, no
  pause. When it is another string, the switch request (api_id 1002, name \<open>normal\<close>) is
  issued and, once it has returned, the pause of 5 follows; a request that raises leaves
  the sequence at once, as any exception does.
\<close>

theorem switch_to_normal_when_needed:
  "(current_motion_switcher_mode s = Some ''normal'' \<longrightarrow> switch_to_normal w s = (Next (), s))
   \<and> (current_motion_switcher_mode s = Some mode \<and> mode \<noteq> ''normal'' \<longrightarrow>
        (\<exists>sg. trace (snd (switch_to_normal w s))
                = trace s @ Request ''MOTION_SWITCHER'' (Payload (Api 1002) (Some (Name ''normal''))) # sg
           \<and> (case publish_outcome w (publishes s) of
                 Inr r \<Rightarrow> fst (switch_to_normal w s) = Next () \<and> visible sg = [Sleep 5]
               | Inl e \<Rightarrow> fst (switch_to_normal w s) = Raise e \<and> visible sg = [])))"
  by (auto simp: switch_to_normal_def and_then_def load_mode_def skip_def publish_request_new_def
        pause_def sleep_def Let_def visible_def split: sum.splits)

lemma idle_loop_quiet:
  "\<forall>k. \<not> signal_during w k \<Longrightarrow> \<not> kill_now s
   \<Longrightarrow> fst (idle_loop w n s) = Next ()
       \<and> trace (snd (idle_loop w n s)) = trace s @ concat (replicate n [Check False, Sleep 1])"
  by (induction n arbitrary: s) (simp_all add: sleep_def)

theorem switch_to_normal_when_needed_witness:
  "switch_to_normal calm (start\<lparr>current_motion_switcher_mode := Some ''normal''\<rparr>)
     = (Next (), start\<lparr>current_motion_switcher_mode := Some ''normal''\<rparr>)
   \<and> fst (switch_to_normal calm (start\<lparr>current_motion_switcher_mode := Some ''ai''\<rparr>)) = Next ()
   \<and> visible (trace (snd (switch_to_normal calm (start\<lparr>current_motion_switcher_mode := Some ''ai''\<rparr>))))
       = [Request ''MOTION_SWITCHER'' (Payload (Api 1002) (Some (Name ''normal''))), Sleep 5]"
proof -
  let ?n = "start\<lparr>current_motion_switcher_mode := Some ''normal''\<rparr>"
  let ?a = "start\<lparr>current_motion_switcher_mode := Some ''ai''\<rparr>"
  have p: "publish_outcome calm (publishes ?a) = Inr (Response (Inr 0) (Inr ''normal''))"
    by (simp add: calm_def)
  have t: "trace ?a = []" by (simp add: start_def)
  from switch_to_normal_when_needed [of ?n calm "''ai''"]
  have 1: "switch_to_normal calm ?n = (Next (), ?n)" by simp
  from switch_to_normal_when_needed [of ?a calm "''ai''"] p t
  have 2: "fst (switch_to_normal calm ?a) = Next ()
     \<and> visible (trace (snd (switch_to_normal calm ?a)))
       = [Request ''MOTION_SWITCHER'' (Payload (Api 1002) (Some (Name ''normal''))), Sleep 5]"
    by (auto simp: visible_def)
  from 1 2 show ?thesis by simp
qed

lemma and_then_assoc:
  "and_then (and_then m f) g = and_then m (\<lambda>x. and_then (f x) g)"
  by (rule ext) (simp add: and_then_def split: prod.splits ctl.splits)

lemma and_then_skip: "and_then skip f = f ()"
  by (rule ext) (simp add: and_then_def skip_def)

lemma publish_quiet:
  "\<forall>k. \<not> signal_during w k \<Longrightarrow> \<forall>k. \<exists>r. publish_outcome w k = Inr r
   \<Longrightarrow> and_then (publish_request_new w t p) f s
       = f (projr (publish_outcome w (publishes s)))
           ((log (Request t p) (s\<lparr>publishes := Suc (publishes s)\<rparr>))\<lparr>awaits := Suc (awaits s)\<rparr>)"
proof -
  assume q: "\<forall>k. \<not> signal_during w k" and a: "\<forall>k. \<exists>r. publish_outcome w k = Inr r"
  from a obtain r where r: "publish_outcome w (publishes s) = Inr r" by blast
  show ?thesis using q r
    by (simp add: and_then_def publish_request_new_def await_def log_def Let_def)
qed

lemma pause_quiet:
  "\<forall>k. \<not> signal_during w k
   \<Longrightarrow> and_then (pause w d) f s = f () ((log (Sleep d) s)\<lparr>awaits := Suc (awaits s)\<rparr>)"
  by (simp add: and_then_def pause_def sleep_def await_def log_def Let_def)

lemma check_alive:
  "\<not> kill_now s \<Longrightarrow> and_then return_if_killed f s = f () (log (Check False) s)"
  by (simp add: and_then_def return_if_killed_def)

lemma read_mode_ok:
  "status_code r = Inr 0 \<Longrightarrow> data_name r = Inr mode
   \<Longrightarrow> and_then (read_mode r) f s = f () (s\<lparr>current_motion_switcher_mode := Some mode\<rparr>)"
  by (simp add: and_then_def read_mode_def)

lemma load_mode_bound:
  "current_motion_switcher_mode s = Some mode \<Longrightarrow> and_then load_mode f s = f mode s"
  by (simp add: and_then_def load_mode_def)

text \<open>
  Claim C6. Without signals, with every request answered and the mode query answered with
  status code zero, the command sequence falls through having done exactly this, in this
  order: the mode query; the switch to \<open>normal\<close> and a pause of 5 unless that is the
  current mode; a check; Hello and a pause of 1; the move forward and a pause of 3; a check;
  the move backward and a pause of 3; a check; the switch to \<open>ai\<close> and a pause of 10; a
  check; the stance and a pause of 5; the stance reverted; and 600 rounds of a check and a
  pause of 1. Nothing else is requested and nothing is repeated.
\<close>

theorem command_sequence_order:
  assumes quiet: "\<forall>k. \<not> signal_during w k"
    and answers: "\<forall>k. \<exists>r. publish_outcome w k = Inr r"
    and first: "publish_outcome w (publishes s) = Inr r0"
    and ok: "status_code r0 = Inr 0" and name: "data_name r0 = Inr mode"
    and alive: "\<not> kill_now s"
  shows "fst (command_sequence w s) = Next ()
       \<and> trace (snd (command_sequence w s))
         = trace s
           @ [Request ''MOTION_SWITCHER'' (Payload (Api 1001) None)]
           @ (if mode \<noteq> ''normal''
              then [Request ''MOTION_SWITCHER'' (Payload (Api 1002) (Some (Name ''normal''))), Sleep 5]
              else [])
           @ [Check False,
              Request ''SPORT_MOD'' (Payload (SPORT_CMD ''Hello'') None), Sleep 1,
              Request ''SPORT_MOD'' (Payload (SPORT_CMD ''Move'') (Some (XYZ (1 / 2) 0 0))), Sleep 3,
              Check False,
              Request ''SPORT_MOD'' (Payload (SPORT_CMD ''Move'') (Some (XYZ (- (1 / 2)) 0 0))), Sleep 3,
              Check False,
              Request ''MOTION_SWITCHER'' (Payload (Api 1002) (Some (Name ''ai''))), Sleep 10,
              Check False,
              Request ''SPORT_MOD'' (Payload (SPORT_CMD ''StandOut'') (Some (Data True))), Sleep 5,
              Request ''SPORT_MOD'' (Payload (SPORT_CMD ''StandOut'') (Some (Data False)))]
           @ concat (replicate 600 [Check False, Sleep 1])"
proof -
  have r0: "projr (publish_outcome w (publishes s)) = r0" using first by simp
  note rules = and_then_assoc and_then_skip publish_quiet [OF quiet answers] pause_quiet [OF quiet]
    check_alive read_mode_ok [OF ok name] load_mode_bound
  show ?thesis
  proof (cases "mode = ''normal''")
    case True
    have "\<exists>s'. command_sequence w s = idle_loop w 600 s' \<and> \<not> kill_now s'
            \<and> trace s' = trace s @ [Request ''MOTION_SWITCHER'' (Payload (Api 1001) None)]
                 @ tail_of_sequence"
      using alive True
      apply (simp add: command_sequence_def normal_mode_def query_mode_def switch_to_normal_def
            hello_and_forward_def move_backward_def ai_mode_def handstand_def rules r0
            tail_of_sequence_def log_def)
      apply (rule exI, rule conjI, rule refl)
      apply simp
      done
    then obtain s' where s': "command_sequence w s = idle_loop w 600 s'" "\<not> kill_now s'"
      "trace s' = trace s @ [Request ''MOTION_SWITCHER'' (Payload (Api 1001) None)] @ tail_of_sequence"
      by blast
    from idle_loop_quiet [OF quiet s'(2), of 600] s'(1,3) True
    show ?thesis by (simp add: tail_of_sequence_def)
  next
    case False
    have "\<exists>s'. command_sequence w s = idle_loop w 600 s' \<and> \<not> kill_now s'
            \<and> trace s' = trace s @ [Request ''MOTION_SWITCHER'' (Payload (Api 1001) None),
                   Request ''MOTION_SWITCHER'' (Payload (Api 1002) (Some (Name ''normal''))), Sleep 5]
                 @ tail_of_sequence"
      using alive False
      apply (simp add: command_sequence_def normal_mode_def query_mode_def switch_to_normal_def
            hello_and_forward_def move_backward_def ai_mode_def handstand_def rules r0
            tail_of_sequence_def log_def)
      apply (rule exI, rule conjI, rule refl)
      apply simp
      done
    then obtain s' where s': "command_sequence w s = idle_loop w 600 s'" "\<not> kill_now s'"
      "trace s' = trace s @ [Request ''MOTION_SWITCHER'' (Payload (Api 1001) None),
                   Request ''MOTION_SWITCHER'' (Payload (Api 1002) (Some (Name ''normal''))), Sleep 5]
                 @ tail_of_sequence"
      by blast
    from idle_loop_quiet [OF quiet s'(2), of 600] s'(1,3) False
    show ?thesis by (simp add: tail_of_sequence_def)
  qed
qed

text \<open>The sequence for a robot that reports the mode \<open>ai\<close>.\<close>

theorem command_sequence_order_witness:
  "\<not> kill_now start
   \<and> fst (command_sequence in_ai_mode start) = Next ()
   \<and> take 4 (trace (snd (command_sequence in_ai_mode start)))
       = [Request ''MOTION_SWITCHER'' (Payload (Api 1001) None),
          Request ''MOTION_SWITCHER'' (Payload (Api 1002) (Some (Name ''normal''))), Sleep 5,
          Check False]
   \<and> length (trace (snd (command_sequence in_ai_mode start))) = 1218"
proof -
  have q: "\<forall>k. \<not> signal_during in_ai_mode k" by (simp add: in_ai_mode_def calm_def)
  have a: "\<forall>k. \<exists>r. publish_outcome in_ai_mode k = Inr r" by (simp add: in_ai_mode_def calm_def)
  have f: "publish_outcome in_ai_mode (publishes start) = Inr (Response (Inr 0) (Inr ''ai''))"
    by (simp add: in_ai_mode_def calm_def)
  have k: "\<not> kill_now start" by (simp add: start_def)
  have t: "trace start = []" by (simp add: start_def)
  from command_sequence_order [OF q a f _ _ k, of "''ai''"] k t
  show ?thesis by (simp add: length_concat sum_list_replicate)
qed

section \<open>main and the module level\<close>

lemma cleanup_eq: "cleanup w s = (Next (), if conn s then sleep w 1 (log Cleanup s) else s)"
  by (simp add: cleanup_def try_except_def pause_def)

lemma main_result:
  "fst (main w s) =
     (case fst (main_body w ((GracefulKiller s)\<lparr>conn := False, current_motion_switcher_mode := None\<rparr>)) of
        Raise e \<Rightarrow> if is_Exception e then Inr () else Inl e
      | r \<Rightarrow> Inr ())"
  by (auto simp: main_def try_finally_def try_except_def handlers_def cleanup_eq
        split: prod.splits ctl.splits)

lemma main_state:
  "snd (main w s) =
     (case main_body w ((GracefulKiller s)\<lparr>conn := False, current_motion_switcher_mode := None\<rparr>) of
        (r, s1) \<Rightarrow>
          let s2 = (case r of
                      Raise e \<Rightarrow>
                        if is_Exception e
                        then log (Logged (if e = TimeoutError then ''Timeout error''
                                          else if e = ConnectionError then ''Connection error''
                                          else ''Unexpected error'') e) s1
                        else s1
                    | r' \<Rightarrow> s1)
          in if conn s2 then sleep w 1 (log Cleanup s2) else s2)"
  by (auto simp: main_def try_finally_def try_except_def handlers_def cleanup_eq Let_def
        split: prod.splits ctl.splits)

lemma script_result: "fst (script w) = Raise (SystemExit 0)"
  by (simp add: script_def try_finally_def split: prod.splits ctl.splits)

lemma script_state: "snd (script w) = log Terminated (snd (main w start))"
proof -
  obtain r s1 where m: "main w start = (r, s1)" by (cases "main w start")
  have "\<And>e. r = Inl e \<Longrightarrow> \<not> is_Exception e"
    using main_result [of w start] m by (auto split: ctl.splits if_splits)
  then show ?thesis using m
    by (cases r) (auto simp: script_def guarded_run_def try_finally_def try_except_def call_def)
qed

lemma main_body_eq:
  "main_body w s =
     (case ctor_outcome w of Some e \<Rightarrow> (Raise e, s) | None \<Rightarrow> session w (s\<lparr>conn := True\<rparr>))"
  by (simp add: main_body_def and_then_def construct_def split: option.splits)

lemma tripleD:
  "triple P m N R E \<Longrightarrow> P s \<Longrightarrow> m s = (r, s')
   \<Longrightarrow> (case r of Next x \<Rightarrow> N s' | Return \<Rightarrow> R s' | Raise e \<Rightarrow> E e s')"
  by (auto simp: triple_def split: ctl.splits)

lemma invariant_session:
  assumes "closed I I (\<lambda>e. I)" and "I s"
  shows "I (snd (session w s))"
proof -
  obtain r s' where rs: "session w s = (r, s')" by (cases "session w s")
  from tripleD [OF closed_session [OF assms(1)] assms(2) rs] rs
  show ?thesis by (cases r) simp_all
qed

lemma main_trace:
  assumes "main_body w ((GracefulKiller start)\<lparr>conn := False, current_motion_switcher_mode := None\<rparr>) = (r, s1)"
  shows "trace (snd (main w start)) = trace s1 @ handled r @ cleaned w s1"
  unfolding main_state assms
  by (cases r) (simp_all add: Let_def sleep_def handled_def cleaned_def)

lemma no_check_after_body:
  "Check b \<notin> set (handled r)" "Check b \<notin> set (cleaned w s)"
  by (auto simp: handled_def cleaned_def split: ctl.splits)

lemma visible_cleaned: "conn s \<Longrightarrow> visible (cleaned w s) = [Cleanup, Sleep 1]"
  by (simp add: cleaned_def visible_def)

section \<open>The shutdown flag\<close>

lemma reads_flag_snoc:
  "reads_flag k (tr @ [e])
     = (reads_flag k tr \<and> (case e of Check b \<Rightarrow> b = (k \<or> Signal \<in> set tr) | e' \<Rightarrow> True))"
proof (induction tr arbitrary: k)
  case Nil
  then show ?case by (cases e) auto
next
  case (Cons a tr)
  then show ?case by (cases a; cases e) auto
qed

lemma flag_inv_log: "flag_inv s \<Longrightarrow> plain e \<Longrightarrow> flag_inv (log e s)"
  by (cases e) (auto simp: flag_inv_def reads_flag_snoc)

lemma flag_inv_check:
  "flag_inv s \<Longrightarrow> \<not> kill_now s \<Longrightarrow> flag_inv (log (Check False) s)"
  "flag_inv s \<Longrightarrow> kill_now s \<Longrightarrow> flag_inv (log (Check True) s)"
  by (auto simp: flag_inv_def reads_flag_snoc)

lemma flag_inv_await: "flag_inv s \<Longrightarrow> plain e \<Longrightarrow> flag_inv (await w e s)"
proof -
  assume a: "flag_inv s" "plain e"
  have 1: "reads_flag False (trace s @ [e])"
    using a by (cases e) (auto simp: flag_inv_def reads_flag_snoc)
  have 2: "reads_flag False ((trace s @ [e]) @ [Signal])"
    using 1 by (subst reads_flag_snoc) simp
  have "e \<noteq> Signal" using a(2) by auto
  then show ?thesis using a 1 2 by (auto simp: flag_inv_def)
qed

lemma flag_inv_fields:
  "flag_inv (s\<lparr>connects := n\<rparr>) = flag_inv s"
  "flag_inv (s\<lparr>publishes := n\<rparr>) = flag_inv s"
  "flag_inv (s\<lparr>conn := c\<rparr>) = flag_inv s"
  "flag_inv (s\<lparr>current_motion_switcher_mode := m\<rparr>) = flag_inv s"
  by (simp_all add: flag_inv_def)

lemma closed_flag_inv: "closed flag_inv flag_inv (\<lambda>e. flag_inv)"
  by (simp add: closed_def closed0_def flag_inv_fields flag_inv_await flag_inv_check)

lemma flag_inv_main: "flag_inv (snd (main w start))"
proof -
  let ?s0 = "(GracefulKiller start)\<lparr>conn := False, current_motion_switcher_mode := None\<rparr>"
  have s0: "flag_inv ?s0" by (simp add: flag_inv_def GracefulKiller_def start_def)
  obtain r s1 where b: "main_body w ?s0 = (r, s1)" by (cases "main_body w ?s0")
  have s1: "flag_inv s1"
  proof (cases "ctor_outcome w")
    case None
    have "flag_inv (snd (session w (?s0\<lparr>conn := True\<rparr>)))"
      by (rule invariant_session [OF closed_flag_inv]) (use s0 in \<open>simp add: flag_inv_fields\<close>)
    then show ?thesis using b None by (simp add: main_body_eq)
  next
    case (Some e)
    then show ?thesis using b s0 by (simp add: main_body_eq)
  qed
  show ?thesis
    unfolding main_state b
    by (auto simp: Let_def sleep_def s1 flag_inv_log flag_inv_await split: ctl.splits)
qed

text \<open>
  Claim C10. The constructor of \<open>GracefulKiller\<close> sets the flag to false and the signal
  handler sets it to true. In every run of the script, the trace is consistent with a flag
  that starts unset and is written by the signal handler only: a check before the first
  signal reads false, a check after a signal reads true; and the flag is set at the end
  exactly when a signal was handled.
\<close>

theorem flag_set_by_signal_only:
  "kill_now (GracefulKiller s) = False
   \<and> kill_now (handle_signal s) = True
   \<and> reads_flag False (trace (snd (script w)))
   \<and> kill_now (snd (script w)) = (Signal \<in> set (trace (snd (script w))))"
proof -
  have "flag_inv (snd (script w))"
    unfolding script_state by (rule flag_inv_log [OF flag_inv_main]) simp
  then show ?thesis by (simp add: flag_inv_def GracefulKiller_def handle_signal_def)
qed

theorem flag_set_by_signal_only_witness:
  "reads_flag False (trace (snd (script greeting_interrupted)))
   \<and> kill_now (snd (script greeting_interrupted))
       = (Signal \<in> set (trace (snd (script greeting_interrupted))))"
  using flag_set_by_signal_only [of start greeting_interrupted] by simp

section \<open>Cleanup and exit\<close>

lemma closed_no_cleanup: "closed no_cleanup no_cleanup (\<lambda>e. no_cleanup)"
  by (simp add: closed_def closed0_def no_cleanup_def)

lemma no_cleanup_body:
  assumes "ctor_outcome w = None"
  shows "no_cleanup (snd (main_body w ((GracefulKiller start)\<lparr>conn := False, current_motion_switcher_mode := None\<rparr>)))"
proof -
  let ?s0 = "(GracefulKiller start)\<lparr>conn := False, current_motion_switcher_mode := None\<rparr>"
  have "no_cleanup (?s0\<lparr>conn := True\<rparr>)"
    by (simp add: no_cleanup_def GracefulKiller_def start_def)
  then have "no_cleanup (snd (session w (?s0\<lparr>conn := True\<rparr>)))"
    by (rule invariant_session [OF closed_no_cleanup])
  then show ?thesis using assms by (simp add: main_body_eq)
qed

text \<open>
  When the constructor of the connection object raises, \<open>conn\<close> is still \<open>None\<close> in the
  \<^verbatim>\<open>finally\<close> block and the cleanup is skipped.
\<close>

lemma cleanup_skipped_without_connection:
  "ctor_outcome w = Some e \<Longrightarrow> count_list (trace (snd (script w))) Cleanup = 0"
  unfolding script_state main_state
  by (auto simp: main_body_eq Let_def GracefulKiller_def start_def)

section \<open>Cancellation\<close>

lemma closed_unstopped: "closed unstopped stopped_last (\<lambda>e. unstopped)"
  by (simp add: closed_def closed0_def unstopped_def stopped_last_def)

lemma split_at_only_occurrence:
  "xs @ a # ys = xs' @ a # ys' \<Longrightarrow> a \<notin> set xs' \<Longrightarrow> a \<notin> set ys' \<Longrightarrow> xs = xs' \<and> ys = ys'"
proof (induction xs arbitrary: xs')
  case Nil
  then show ?case by (cases xs') auto
next
  case (Cons x xs)
  then show ?case by (cases xs') auto
qed

lemma positive_check_is_last:
  assumes "trace (snd (main w start)) = pre @ Check True # post"
  shows "fst (main w start) = Inr () \<and> visible post = [Cleanup, Sleep 1]"
proof -
  let ?s0 = "(GracefulKiller start)\<lparr>conn := False, current_motion_switcher_mode := None\<rparr>"
  obtain r s1 where b: "main_body w ?s0 = (r, s1)" by (cases "main_body w ?s0")
  note tr = main_trace [OF b]
  have "Check True \<in> set (trace (snd (main w start)))" using assms by simp
  then have seen: "Check True \<in> set (trace s1)"
    unfolding tr using no_check_after_body [of True] by auto
  have s0: "trace ?s0 = []" by (simp add: GracefulKiller_def start_def)
  show ?thesis
  proof (cases "ctor_outcome w")
    case (Some e)
    then have "trace s1 = []" using b s0 by (auto simp: main_body_eq)
    with seen show ?thesis by simp
  next
    case None
    have u0: "unstopped (?s0\<lparr>conn := True\<rparr>)"
      by (simp add: unstopped_def GracefulKiller_def start_def)
    have s: "session w (?s0\<lparr>conn := True\<rparr>) = (r, s1)" using b None by (simp add: main_body_eq)
    note post = tripleD [OF closed_session [OF closed_unstopped] u0 s]
    have st: "stopped_last s1 \<and> handled r = [] \<and> fst (main w start) = Inr ()"
    proof (cases r)
      case (Next u)
      then show ?thesis using post b by (simp add: handled_def main_result)
    next
      case Return
      then show ?thesis using post b by (simp add: handled_def main_result)
    next
      case (Raise e)
      with post have "unstopped s1" by simp
      with seen show ?thesis by (simp add: unstopped_def)
    qed
    then obtain pre' where p: "trace s1 = pre' @ [Check True]" "Check True \<notin> set pre'" "conn s1"
      using seen by (auto simp: stopped_last_def)
    have "pre @ Check True # post = trace (snd (main w start))" using assms by (rule sym)
    also have "\<dots> = pre' @ Check True # cleaned w s1" using tr st p(1) by simp
    finally have "pre @ Check True # post = pre' @ Check True # cleaned w s1" .
    then have "post = cleaned w s1"
      using split_at_only_occurrence [of pre "Check True" post pre' "cleaned w s1"]
        p(2) no_check_after_body(2) [of True w s1] by blast
    then show ?thesis using st p(3) by (simp add: visible_cleaned)
  qed
qed

lemma triple_true: "triple P m (\<lambda>s. True) (\<lambda>s. True) (\<lambda>e s. True)"
  by (simp add: triple_def split: prod.splits ctl.splits)

lemma triple_any_then:
  "(\<And>x. triple (\<lambda>s. True) (f x) N (\<lambda>s. True) (\<lambda>e s. True))
   \<Longrightarrow> triple (\<lambda>s. True) (and_then m f) N (\<lambda>s. True) (\<lambda>e s. True)"
  by (rule triple_and_then [OF triple_true])

lemma triple_check_unset:
  "triple (\<lambda>s. True) return_if_killed (\<lambda>s. \<not> kill_now s) (\<lambda>s. True) (\<lambda>e s. True)"
  by (simp add: triple_def return_if_killed_def)

lemma falls_through_unset:
  assumes t: "triple (\<lambda>s. True) m (\<lambda>s. \<not> kill_now s) (\<lambda>s. True) (\<lambda>e s. True)"
    and f: "fst (m s) = Next u"
  shows "\<not> kill_now (snd (m s))"
proof -
  obtain r s' where ms: "m s = (r, s')" by (cases "m s")
  with f have r: "r = Next u" by simp
  from tripleD [OF t _ ms] r have "\<not> kill_now s'" by simp
  then show ?thesis by (simp add: ms)
qed

lemma normal_mode_unset: "fst (normal_mode w s) = Next u \<Longrightarrow> \<not> kill_now (snd (normal_mode w s))"
  by (rule falls_through_unset [rotated], assumption, unfold normal_mode_def)
    (intro triple_any_then triple_check_unset)

lemma hello_and_forward_unset:
  "fst (hello_and_forward w s) = Next u \<Longrightarrow> \<not> kill_now (snd (hello_and_forward w s))"
  by (rule falls_through_unset [rotated], assumption, unfold hello_and_forward_def)
    (intro triple_any_then triple_check_unset)

lemma move_backward_unset:
  "fst (move_backward w s) = Next u \<Longrightarrow> \<not> kill_now (snd (move_backward w s))"
  by (rule falls_through_unset [rotated], assumption, unfold move_backward_def)
    (intro triple_any_then triple_check_unset)

lemma ai_mode_unset: "fst (ai_mode w s) = Next u \<Longrightarrow> \<not> kill_now (snd (ai_mode w s))"
  by (rule falls_through_unset [rotated], assumption, unfold ai_mode_def)
    (intro triple_any_then triple_check_unset)

subsection \<open>Two interrupted runs\<close>

lemma idle_loop_killed:
  "kill_now s \<Longrightarrow> idle_loop w 600 s = (Next (), log (Check True) s)"
  using idle_loop.simps(2) [of w 599 s] by simp

lemma retry_first_success:
  "connect_outcome w (connects s) = None
   \<Longrightarrow> connect_with_retry w 3 5 s = (Inr True, await w Connect (s\<lparr>connects := Suc (connects s)\<rparr>))"
  by (simp add: connect_with_retry_def retry_loop.simps connect_def)

lemma publish_step:
  "and_then (publish_request_new w t p) f s =
     (case publish_outcome w (publishes s) of
        Inl e \<Rightarrow> (Raise e, await w (Request t p) (s\<lparr>publishes := Suc (publishes s)\<rparr>))
      | Inr r \<Rightarrow> f r (await w (Request t p) (s\<lparr>publishes := Suc (publishes s)\<rparr>)))"
  by (simp add: and_then_def publish_request_new_def Let_def split: sum.splits)

lemma pause_step: "and_then (pause w d) f s = f () (await w (Sleep d) s)"
  by (simp add: and_then_def pause_def sleep_def)

lemma check_step:
  "and_then return_if_killed f s =
     (if kill_now s then (Return, log (Check True) s) else f () (log (Check False) s))"
  by (simp add: and_then_def return_if_killed_def)

lemma wait_step:
  "and_then (wait_datachannel_open w t) f s =
     (case wait_outcome w of
        Some e \<Rightarrow> (Raise e, await w (WaitOpen t) s)
      | None \<Rightarrow> f () (await w (WaitOpen t) s))"
  by (simp add: and_then_def wait_datachannel_open_def Let_def split: option.splits)

lemma connect_step_first:
  "connect_outcome w (connects s) = None
   \<Longrightarrow> and_then (call (connect_with_retry w 3 5)) f s
       = f True (await w Connect (s\<lparr>connects := Suc (connects s)\<rparr>))"
  by (simp add: and_then_def call_def retry_first_success)

lemma read_mode_step:
  "and_then (read_mode (Response (Inr 0) (Inr mode))) f s
     = f () (s\<lparr>current_motion_switcher_mode := Some mode\<rparr>)"
  by (simp add: and_then_def read_mode_def)

lemma load_mode_step:
  "and_then load_mode f s =
     (case current_motion_switcher_mode s of
        None \<Rightarrow> (Raise UnboundLocalError, s)
      | Some mode \<Rightarrow> f mode s)"
  by (simp add: and_then_def load_mode_def split: option.splits)

lemmas steps = and_then_assoc and_then_skip publish_step pause_step check_step wait_step
  read_mode_step load_mode_step

lemma greeting_body:
  "\<exists>s1. main_body greeting_interrupted
           ((GracefulKiller start)\<lparr>conn := False, current_motion_switcher_mode := None\<rparr>)
          = (Return, s1)
      \<and> conn s1 \<and> awaits s1 = 7
      \<and> trace s1 = [Connect, WaitOpen 30, Check False,
           Request ''MOTION_SWITCHER'' (Payload (Api 1001) None), Check False,
           Request ''SPORT_MOD'' (Payload (SPORT_CMD ''Hello'') None), Sleep 1, Signal,
           Request ''SPORT_MOD'' (Payload (SPORT_CMD ''Move'') (Some (XYZ (1 / 2) 0 0))), Sleep 3,
           Check True]"
proof -
  have w: "connect_outcome greeting_interrupted = (\<lambda>k. None)"
    "wait_outcome greeting_interrupted = None"
    "publish_outcome greeting_interrupted = (\<lambda>k. Inr (Response (Inr 0) (Inr ''normal'')))"
    "signal_during greeting_interrupted = (\<lambda>k. k = 4)"
    "ctor_outcome greeting_interrupted = None"
    by (simp_all add: greeting_interrupted_def calm_def)
  show ?thesis
    apply (simp add: main_body_eq w session_def connect_step_first)
    apply (simp add: steps w command_sequence_def normal_mode_def query_mode_def
        switch_to_normal_def hello_and_forward_def GracefulKiller_def start_def)
    done
qed

lemma greeting_trace:
  "trace (snd (main greeting_interrupted start))
     = [Connect, WaitOpen 30, Check False,
        Request ''MOTION_SWITCHER'' (Payload (Api 1001) None), Check False,
        Request ''SPORT_MOD'' (Payload (SPORT_CMD ''Hello'') None), Sleep 1, Signal,
        Request ''SPORT_MOD'' (Payload (SPORT_CMD ''Move'') (Some (XYZ (1 / 2) 0 0))), Sleep 3,
        Check True, Cleanup, Sleep 1]"
proof -
  from greeting_body obtain s1 where
    b: "main_body greeting_interrupted
           ((GracefulKiller start)\<lparr>conn := False, current_motion_switcher_mode := None\<rparr>) = (Return, s1)"
    and s1: "conn s1" "awaits s1 = 7"
      "trace s1 = [Connect, WaitOpen 30, Check False,
           Request ''MOTION_SWITCHER'' (Payload (Api 1001) None), Check False,
           Request ''SPORT_MOD'' (Payload (SPORT_CMD ''Hello'') None), Sleep 1, Signal,
           Request ''SPORT_MOD'' (Payload (SPORT_CMD ''Move'') (Some (XYZ (1 / 2) 0 0))), Sleep 3,
           Check True]"
    by blast
  have "cleaned greeting_interrupted s1 = [Cleanup, Sleep 1]"
    using s1(1,2) by (simp add: cleaned_def greeting_interrupted_def calm_def)
  then show ?thesis
    unfolding main_trace [OF b] by (simp add: s1(3) handled_def)
qed

lemma stance_body:
  "\<exists>s1. main_body stance_interrupted
           ((GracefulKiller start)\<lparr>conn := False, current_motion_switcher_mode := None\<rparr>)
          = (Next (), s1)
      \<and> conn s1 \<and> awaits s1 = 14
      \<and> trace s1 = [Connect, WaitOpen 30, Check False,
           Request ''MOTION_SWITCHER'' (Payload (Api 1001) None), Check False,
           Request ''SPORT_MOD'' (Payload (SPORT_CMD ''Hello'') None), Sleep 1,
           Request ''SPORT_MOD'' (Payload (SPORT_CMD ''Move'') (Some (XYZ (1 / 2) 0 0))), Sleep 3,
           Check False,
           Request ''SPORT_MOD'' (Payload (SPORT_CMD ''Move'') (Some (XYZ (- (1 / 2)) 0 0))), Sleep 3,
           Check False,
           Request ''MOTION_SWITCHER'' (Payload (Api 1002) (Some (Name ''ai''))), Sleep 10,
           Check False,
           Request ''SPORT_MOD'' (Payload (SPORT_CMD ''StandOut'') (Some (Data True))), Sleep 5,
           Signal,
           Request ''SPORT_MOD'' (Payload (SPORT_CMD ''StandOut'') (Some (Data False))),
           Check True]"
proof -
  have w: "connect_outcome stance_interrupted = (\<lambda>k. None)"
    "wait_outcome stance_interrupted = None"
    "publish_outcome stance_interrupted = (\<lambda>k. Inr (Response (Inr 0) (Inr ''normal'')))"
    "signal_during stance_interrupted = (\<lambda>k. k = 12)"
    "ctor_outcome stance_interrupted = None"
    by (simp_all add: stance_interrupted_def calm_def)
  show ?thesis
    apply (simp add: main_body_eq w session_def connect_step_first)
    apply (simp add: steps w command_sequence_def normal_mode_def query_mode_def
        switch_to_normal_def hello_and_forward_def move_backward_def ai_mode_def handstand_def
        idle_loop_killed GracefulKiller_def start_def)
    done
qed

lemma stance_trace:
  "trace (snd (main stance_interrupted start))
     = [Connect, WaitOpen 30, Check False,
           Request ''MOTION_SWITCHER'' (Payload (Api 1001) None), Check False,
           Request ''SPORT_MOD'' (Payload (SPORT_CMD ''Hello'') None), Sleep 1,
           Request ''SPORT_MOD'' (Payload (SPORT_CMD ''Move'') (Some (XYZ (1 / 2) 0 0))), Sleep 3,
           Check False,
           Request ''SPORT_MOD'' (Payload (SPORT_CMD ''Move'') (Some (XYZ (- (1 / 2)) 0 0))), Sleep 3,
           Check False,
           Request ''MOTION_SWITCHER'' (Payload (Api 1002) (Some (Name ''ai''))), Sleep 10,
           Check False,
           Request ''SPORT_MOD'' (Payload (SPORT_CMD ''StandOut'') (Some (Data True))), Sleep 5,
           Signal,
           Request ''SPORT_MOD'' (Payload (SPORT_CMD ''StandOut'') (Some (Data False))),
           Check True, Cleanup, Sleep 1]"
proof -
  from stance_body obtain s1 where
    b: "main_body stance_interrupted
           ((GracefulKiller start)\<lparr>conn := False, current_motion_switcher_mode := None\<rparr>) = (Next (), s1)"
    and s1: "conn s1" "awaits s1 = 14"
    and t: "trace s1 = [Connect, WaitOpen 30, Check False,
           Request ''MOTION_SWITCHER'' (Payload (Api 1001) None), Check False,
           Request ''SPORT_MOD'' (Payload (SPORT_CMD ''Hello'') None), Sleep 1,
           Request ''SPORT_MOD'' (Payload (SPORT_CMD ''Move'') (Some (XYZ (1 / 2) 0 0))), Sleep 3,
           Check False,
           Request ''SPORT_MOD'' (Payload (SPORT_CMD ''Move'') (Some (XYZ (- (1 / 2)) 0 0))), Sleep 3,
           Check False,
           Request ''MOTION_SWITCHER'' (Payload (Api 1002) (Some (Name ''ai''))), Sleep 10,
           Check False,
           Request ''SPORT_MOD'' (Payload (SPORT_CMD ''StandOut'') (Some (Data True))), Sleep 5,
           Signal,
           Request ''SPORT_MOD'' (Payload (SPORT_CMD ''StandOut'') (Some (Data False))),
           Check True]"
    by blast
  have "cleaned stance_interrupted s1 = [Cleanup, Sleep 1]"
    using s1 by (simp add: cleaned_def stance_interrupted_def calm_def)
  then show ?thesis
    unfolding main_trace [OF b] by (simp add: t handled_def)
qed

subsection \<open>A request after the flag was set\<close>

text \<open>
  Claim C3 fails on the code. Five pauses of the sequence are followed by a check of the
  flag (lines 91 to 94, 115 to 118, 130 to 133, 146 to 149 and 176 to 178); the pause after
  Hello (line 103) and the pause in the stance (line 161) are not. With the flag set by a
  signal during either of these two pauses, the next request (the move forward, the stance
  reverted) is still issued after the script has woken with the flag set.
\<close>

theorem request_after_signal:
  "trace (snd (main greeting_interrupted start))
     = [Connect, WaitOpen 30, Check False,
        Request ''MOTION_SWITCHER'' (Payload (Api 1001) None), Check False,
        Request ''SPORT_MOD'' (Payload (SPORT_CMD ''Hello'') None), Sleep 1, Signal,
        Request ''SPORT_MOD'' (Payload (SPORT_CMD ''Move'') (Some (XYZ (1 / 2) 0 0))), Sleep 3,
        Check True, Cleanup, Sleep 1]
   \<and> trace (snd (main stance_interrupted start))
     = [Connect, WaitOpen 30, Check False,
        Request ''MOTION_SWITCHER'' (Payload (Api 1001) None), Check False,
        Request ''SPORT_MOD'' (Payload (SPORT_CMD ''Hello'') None), Sleep 1,
        Request ''SPORT_MOD'' (Payload (SPORT_CMD ''Move'') (Some (XYZ (1 / 2) 0 0))), Sleep 3,
        Check False,
        Request ''SPORT_MOD'' (Payload (SPORT_CMD ''Move'') (Some (XYZ (- (1 / 2)) 0 0))), Sleep 3,
        Check False,
        Request ''MOTION_SWITCHER'' (Payload (Api 1002) (Some (Name ''ai''))), Sleep 10,
        Check False,
        Request ''SPORT_MOD'' (Payload (SPORT_CMD ''StandOut'') (Some (Data True))), Sleep 5,
        Signal,
        Request ''SPORT_MOD'' (Payload (SPORT_CMD ''StandOut'') (Some (Data False))),
        Check True, Cleanup, Sleep 1]"
  using greeting_trace stance_trace by simp

section \<open>The mode query that is refused\<close>

lemma closed0_before_query: "closed0 before_query no_request query_failed"
  by (simp add: closed0_def before_query_def no_request_def query_failed_def requests_def)

lemma read_mode_nonzero:
  "status_code r = Inr c \<Longrightarrow> c \<noteq> 0 \<Longrightarrow> and_then (read_mode r) f s = f () s"
  by (simp add: and_then_def read_mode_def)

lemma command_sequence_unbound:
  assumes "publish_outcome w (publishes s) = Inr r" and "status_code r = Inr c" and "c \<noteq> 0"
    and "current_motion_switcher_mode s = None"
  shows "command_sequence w s
           = (Raise UnboundLocalError,
              await w (Request ''MOTION_SWITCHER'' (Payload (Api 1001) None))
                (s\<lparr>publishes := Suc (publishes s)\<rparr>))"
  using assms
  by (simp add: command_sequence_def normal_mode_def query_mode_def switch_to_normal_def
        and_then_assoc publish_step read_mode_nonzero load_mode_step)

lemma command_sequence_before_query:
  assumes "publish_outcome w 0 = Inr r" and "status_code r = Inr c" and "c \<noteq> 0"
  shows "triple before_query (command_sequence w) no_request no_request query_failed"
  unfolding triple_def
proof (intro allI impI)
  fix s assume b: "before_query s"
  then have p: "publish_outcome w (publishes s) = Inr r" and m: "current_motion_switcher_mode s = None"
    using assms(1) by (simp_all add: before_query_def)
  let ?s' = "await w (Request ''MOTION_SWITCHER'' (Payload (Api 1001) None))
               (s\<lparr>publishes := Suc (publishes s)\<rparr>)"
  have "trace ?s' = trace s @ Request ''MOTION_SWITCHER'' (Payload (Api 1001) None)
                      # (if signal_during w (awaits s) then [Signal] else [])"
    by simp
  moreover have "visible (if signal_during w (awaits s) then [Signal] else []) = []"
    by (simp add: visible_def)
  ultimately have "\<exists>pre sg. trace ?s' = pre @ Request ''MOTION_SWITCHER'' (Payload (Api 1001) None) # sg
      \<and> requests pre = [] \<and> visible sg = []"
    using b unfolding before_query_def by blast
  then have "query_failed UnboundLocalError ?s'"
    using b by (simp add: query_failed_def before_query_def)
  then show "case command_sequence w s of (Next x, s') \<Rightarrow> no_request s'
        | (Return, s') \<Rightarrow> no_request s' | (Raise e, s') \<Rightarrow> query_failed e s'"
    by (simp add: command_sequence_unbound [OF p assms(2,3) m])
qed

lemma visible_Cons: "visible (e # es) = (if e = Signal then visible es else e # visible es)"
  by (simp add: visible_def)

lemma requests_append: "requests (xs @ ys) = requests xs @ requests ys"
  by (simp add: requests_def)

lemma requests_after_body: "requests (handled r) = []" "requests (cleaned w s) = []"
  by (auto simp: requests_def handled_def cleaned_def split: ctl.splits)

lemma requests_empty: "requests tr = [] \<Longrightarrow> Request t p \<notin> set tr"
  by (auto simp: requests_def filter_empty_conv)

text \<open>
  Claim C8. When the first request of a run, the mode query, is answered with a status
  code that is not zero, then in every run that gets as far as the query: reading the
  current mode raises \<^verbatim>\<open>UnboundLocalError\<close>, the query is the only request of the
  run, the catch-all handler of \<open>main\<close> logs the error, the cleanup follows and \<open>main\<close>
  returns normally.
\<close>

theorem unbound_mode_skips_sequence:
  assumes "publish_outcome w 0 = Inr r" and "status_code r = Inr c" and "c \<noteq> 0"
    and "Request ''MOTION_SWITCHER'' (Payload (Api 1001) None) \<in> set (trace (snd (main w start)))"
  shows "fst (main w start) = Inr ()
       \<and> (\<exists>pre post. trace (snd (main w start))
                        = pre @ Request ''MOTION_SWITCHER'' (Payload (Api 1001) None) # post
            \<and> requests pre = []
            \<and> visible post = [Logged ''Unexpected error'' UnboundLocalError, Cleanup, Sleep 1])"
proof -
  let ?q = "Request ''MOTION_SWITCHER'' (Payload (Api 1001) None)"
  let ?s0 = "(GracefulKiller start)\<lparr>conn := False, current_motion_switcher_mode := None\<rparr>"
  obtain r' s1 where b: "main_body w ?s0 = (r', s1)" by (cases "main_body w ?s0")
  note tr = main_trace [OF b]
  have some: "requests (trace s1) \<noteq> []"
  proof
    assume "requests (trace s1) = []"
    then have "requests (trace (snd (main w start))) = []"
      unfolding tr by (simp add: requests_append requests_after_body)
    then show False using requests_empty assms(4) by blast
  qed
  have c: "ctor_outcome w = None"
  proof (cases "ctor_outcome w")
    case (Some e)
    then have "trace s1 = []" using b by (auto simp: main_body_eq GracefulKiller_def start_def)
    with some show ?thesis by (simp add: requests_def)
  qed simp
  have b0: "before_query (?s0\<lparr>conn := True\<rparr>)"
    by (simp add: before_query_def GracefulKiller_def start_def requests_def)
  have s: "session w (?s0\<lparr>conn := True\<rparr>) = (r', s1)" using b c by (simp add: main_body_eq)
  note post = tripleD [OF closed0_session [OF closed0_before_query
        command_sequence_before_query [OF assms(1-3)]] b0 s]
  from post some have "r' = Raise UnboundLocalError \<and> query_failed UnboundLocalError s1"
    by (cases r') (auto simp: no_request_def query_failed_def)
  then have r': "r' = Raise UnboundLocalError" and qf: "query_failed UnboundLocalError s1" by simp_all
  from qf some obtain pre sg where p: "trace s1 = pre @ ?q # sg" "requests pre = []"
    "visible sg = []" "conn s1"
    by (auto simp: query_failed_def)
  have "fst (main w start) = Inr ()" unfolding main_result b r' by simp
  moreover have "trace (snd (main w start))
       = pre @ ?q # (sg @ [Logged ''Unexpected error'' UnboundLocalError] @ cleaned w s1)"
    unfolding tr by (simp add: p(1) r' handled_def)
  moreover have "visible (sg @ [Logged ''Unexpected error'' UnboundLocalError] @ cleaned w s1)
       = [Logged ''Unexpected error'' UnboundLocalError, Cleanup, Sleep 1]"
    using p(3) visible_cleaned [OF p(4), of w] by (simp add: visible_append visible_Cons)
  ultimately show ?thesis using p(2) by blast
qed

lemma refused_body:
  "\<exists>s1. main_body refused
           ((GracefulKiller start)\<lparr>conn := False, current_motion_switcher_mode := None\<rparr>)
          = (Raise UnboundLocalError, s1)
      \<and> trace s1 = [Connect, WaitOpen 30, Check False,
           Request ''MOTION_SWITCHER'' (Payload (Api 1001) None)]"
proof -
  have w: "connect_outcome refused = (\<lambda>k. None)"
    "wait_outcome refused = None"
    "publish_outcome refused = (\<lambda>k. Inr (Response (Inr 3203) (Inr [])))"
    "signal_during refused = (\<lambda>k. False)"
    "ctor_outcome refused = None"
    by (simp_all add: refused_def calm_def)
  have n: "\<And>f s. and_then (read_mode (Response (Inr 3203) (Inr []))) f s = f () s"
    by (rule read_mode_nonzero [of _ 3203]) simp_all
  show ?thesis
    apply (simp add: main_body_eq w session_def connect_step_first)
    apply (simp add: steps n w command_sequence_def normal_mode_def query_mode_def
        switch_to_normal_def GracefulKiller_def start_def)
    done
qed

theorem unbound_mode_skips_sequence_witness:
  "publish_outcome refused 0 = Inr (Response (Inr 3203) (Inr []))
   \<and> Request ''MOTION_SWITCHER'' (Payload (Api 1001) None) \<in> set (trace (snd (main refused start)))
   \<and> fst (main refused start) = Inr ()
   \<and> (\<exists>pre post. trace (snd (main refused start))
                    = pre @ Request ''MOTION_SWITCHER'' (Payload (Api 1001) None) # post
        \<and> requests pre = []
        \<and> visible post = [Logged ''Unexpected error'' UnboundLocalError, Cleanup, Sleep 1])"
proof -
  have a: "publish_outcome refused 0 = Inr (Response (Inr 3203) (Inr []))"
    by (simp add: refused_def calm_def)
  have b: "status_code (Response (Inr 3203) (Inr [])) = Inr 3203" by simp
  have c: "(3203::int) \<noteq> 0" by simp
  from refused_body obtain s1 where
    body: "main_body refused
           ((GracefulKiller start)\<lparr>conn := False, current_motion_switcher_mode := None\<rparr>)
          = (Raise UnboundLocalError, s1)"
    and t: "trace s1 = [Connect, WaitOpen 30, Check False,
           Request ''MOTION_SWITCHER'' (Payload (Api 1001) None)]"
    by blast
  have d: "Request ''MOTION_SWITCHER'' (Payload (Api 1001) None) \<in> set (trace (snd (main refused start)))"
    unfolding main_trace [OF body] by (simp add: t)
  from unbound_mode_skips_sequence [OF a b c d] a d show ?thesis by blast
qed

section \<open>Exceptions that leave main\<close>

lemma publish_raises_body:
  assumes "ctor_outcome w = None" and "connect_outcome w 0 = None" and "wait_outcome w = None"
    and "\<not> signal_during w 0" and "\<not> signal_during w (Suc 0)"
    and "publish_outcome w 0 = Inl e"
  shows "fst (main_body w ((GracefulKiller start)\<lparr>conn := False, current_motion_switcher_mode := None\<rparr>))
           = Raise e"
  using assms
  apply (simp add: main_body_eq session_def connect_step_first GracefulKiller_def start_def)
  apply (simp add: steps command_sequence_def normal_mode_def query_mode_def)
  done

lemma guarded_run_result:
  "fst (guarded_run w start)
     = (case fst (main w start) of
          Inl e \<Rightarrow> if e = KeyboardInterrupt then Next () else Raise e
        | Inr u \<Rightarrow> Next ())"
proof -
  obtain r s1 where m: "main w start = (r, s1)" by (cases "main w start")
  have "\<And>e. r = Inl e \<Longrightarrow> \<not> is_Exception e"
    using main_result [of w start] m by (auto split: ctl.splits if_splits)
  then show ?thesis using m
    by (cases r) (auto simp: guarded_run_def try_except_def call_def)
qed

text \<open>
  Claim C7, amended. Whatever the environment does, the module ends by raising
  \<open>SystemExit 0\<close> from its \<^verbatim>\<open>finally\<close> block, which replaces whatever was pending: the
  exit code is 0. An exception leaves \<open>main\<close> exactly when the body of its \<^verbatim>\<open>try\<close>
  statement raises it and it does not derive from \<^verbatim>\<open>Exception\<close>; one that derives from
  \<^verbatim>\<open>Exception\<close> is logged by a handler of \<open>main\<close>, and \<open>main\<close> returns. Of what leaves
  \<open>main\<close>, the module's \<^verbatim>\<open>except\<close> clauses catch \<^verbatim>\<open>KeyboardInterrupt\<close> only. The
  cleanup runs exactly once when the connection object was constructed, and not at all when
  its constructor raised.
\<close>

theorem exit_zero_cleanup_once:
  "fst (script w) = Raise (SystemExit 0)
   \<and> exit_code (fst (script w)) = 0
   \<and> (fst (main w start) = Inl e)
       = (fst (main_body w ((GracefulKiller start)\<lparr>conn := False, current_motion_switcher_mode := None\<rparr>))
            = Raise e \<and> \<not> is_Exception e)
   \<and> (fst (main_body w ((GracefulKiller start)\<lparr>conn := False, current_motion_switcher_mode := None\<rparr>))
         = Raise e \<and> is_Exception e \<longrightarrow>
        fst (main w start) = Inr ()
        \<and> Logged (if e = TimeoutError then ''Timeout error''
                   else if e = ConnectionError then ''Connection error''
                   else ''Unexpected error'') e \<in> set (trace (snd (main w start))))
   \<and> fst (guarded_run w start)
       = (case fst (main w start) of
            Inl e \<Rightarrow> if e = KeyboardInterrupt then Next () else Raise e
          | Inr u \<Rightarrow> Next ())
   \<and> count_list (trace (snd (script w))) Cleanup = (if ctor_outcome w = None then 1 else 0)"
proof (intro conjI impI)
  show "fst (script w) = Raise (SystemExit 0)" by (rule script_result)
  then show "exit_code (fst (script w)) = 0" by (simp add: exit_code_def)
next
  let ?s0 = "(GracefulKiller start)\<lparr>conn := False, current_motion_switcher_mode := None\<rparr>"
  show "(fst (main w start) = Inl e) = (fst (main_body w ?s0) = Raise e \<and> \<not> is_Exception e)"
    unfolding main_result by (auto split: ctl.splits)
next
  let ?s0 = "(GracefulKiller start)\<lparr>conn := False, current_motion_switcher_mode := None\<rparr>"
  assume a: "fst (main_body w ?s0) = Raise e \<and> is_Exception e"
  then show "fst (main w start) = Inr ()" unfolding main_result by simp
  obtain s1 where b: "main_body w ?s0 = (Raise e, s1)" using a by (cases "main_body w ?s0") auto
  show "Logged (if e = TimeoutError then ''Timeout error''
                   else if e = ConnectionError then ''Connection error''
                   else ''Unexpected error'') e \<in> set (trace (snd (main w start)))"
    unfolding main_trace [OF b] using a by (simp add: handled_def)
next
  show "fst (guarded_run w start)
       = (case fst (main w start) of
            Inl e \<Rightarrow> if e = KeyboardInterrupt then Next () else Raise e
          | Inr u \<Rightarrow> Next ())"
    by (rule guarded_run_result)
next
  show "count_list (trace (snd (script w))) Cleanup = (if ctor_outcome w = None then 1 else 0)"
  proof (cases "ctor_outcome w")
    case None
    let ?s0 = "(GracefulKiller start)\<lparr>conn := False, current_motion_switcher_mode := None\<rparr>"
    obtain r s1 where b: "main_body w ?s0 = (r, s1)" by (cases "main_body w ?s0")
    from no_cleanup_body [OF None] b have s1: "Cleanup \<notin> set (trace s1)" "conn s1"
      by (simp_all add: no_cleanup_def)
    then have 0: "count_list (trace s1) Cleanup = 0" by (simp add: count_list_0_iff)
    have "count_list (trace (snd (script w))) Cleanup = 1"
      unfolding script_state main_state b
      using s1 0 by (auto simp: Let_def sleep_def count_list_append split: ctl.splits)
    then show ?thesis using None by simp
  next
    case (Some e)
    then show ?thesis using cleanup_skipped_without_connection [of w e] by simp
  qed
qed

text \<open>A run in which every publish call raises \<^verbatim>\<open>ConnectionError\<close>.\<close>

theorem exit_zero_cleanup_once_witness:
  "exit_code (fst (script publish_fails)) = 0
   \<and> fst (main publish_fails start) = Inr ()
   \<and> Logged ''Connection error'' ConnectionError \<in> set (trace (snd (main publish_fails start)))
   \<and> count_list (trace (snd (script publish_fails))) Cleanup = 1"
proof -
  have c: "ctor_outcome publish_fails = None" by (simp add: publish_fails_def calm_def)
  have b: "fst (main_body publish_fails
             ((GracefulKiller start)\<lparr>conn := False, current_motion_switcher_mode := None\<rparr>))
           = Raise ConnectionError"
    by (rule publish_raises_body) (simp_all add: publish_fails_def calm_def)
  have e: "is_Exception ConnectionError" by simp
  from exit_zero_cleanup_once [of publish_fails ConnectionError] b c e
  show ?thesis by (simp add: exit_code_def)
qed

text \<open>
  Claim C7 as stated fails. A publish call that raises \<^verbatim>\<open>CancelledError\<close> is caught
  neither by the handlers of \<open>main\<close> nor by the module's \<^verbatim>\<open>except\<close> clauses; and when
  the constructor of the connection object raises, the cleanup does not run.
\<close>

theorem exception_passes_handlers:
  "fst (main publish_cancelled start) = Inl CancelledError
   \<and> fst (guarded_run publish_cancelled start) = Raise CancelledError
   \<and> count_list (trace (snd (script ctor_fails))) Cleanup = 0"
proof -
  have b: "fst (main_body publish_cancelled
             ((GracefulKiller start)\<lparr>conn := False, current_motion_switcher_mode := None\<rparr>))
           = Raise CancelledError"
    by (rule publish_raises_body) (simp_all add: publish_cancelled_def calm_def)
  have 1: "fst (main publish_cancelled start) = Inl CancelledError"
    unfolding main_result b by simp
  have 2: "fst (guarded_run publish_cancelled start) = Raise CancelledError"
    unfolding guarded_run_result 1 by simp
  have "ctor_outcome ctor_fails = Some ValueError" by (simp add: ctor_fails_def)
  then have 3: "count_list (trace (snd (script ctor_fails))) Cleanup = 0"
    by (rule cleanup_skipped_without_connection)
  from 1 2 3 show ?thesis by simp
qed

end
